theory Spec2Isabelle
  imports Complex_Main "HOL-Library.Multiset"
begin

section \<open>Rolling statistics tracker (class DownloadStats)\<close>

text \<open>
  The tracker holds the cumulative byte count, its construction time and two bounded
  deques (\<open>deque(maxlen=10)\<close>) of byte counts and of clock readings. Byte counts are
  Python integers (\<open>int\<close>); clock readings are the floats of \<open>time.time()\<close>, modelled
  as reals (rounding is not modelled). The lock makes every method atomic, so each method
  is a function on the state; the clock reading taken inside \<open>add_bytes\<close> is an argument.
\<close>

record DownloadStats =
  bytes_downloaded :: int
  start_time :: real
  recent_bytes :: "int list"
  recent_times :: "real list"

definition deque_maxlen :: nat where
  "deque_maxlen = 10"

text \<open>\<open>deque.append\<close> on a bounded deque: append on the right, and drop the leftmost
  element when the bound is exceeded.\<close>

definition deque_append :: "'a list \<Rightarrow> 'a \<Rightarrow> 'a list" where
  "deque_append d x = (let d' = d @ [x] in if length d' > deque_maxlen then tl d' else d')"

definition DownloadStats_init :: "real \<Rightarrow> DownloadStats" where
  "DownloadStats_init now =
     \<lparr>bytes_downloaded = 0, start_time = now, recent_bytes = [], recent_times = []\<rparr>"

definition add_bytes :: "DownloadStats \<Rightarrow> int \<Rightarrow> real \<Rightarrow> DownloadStats" where
  "add_bytes self bytes_count current_time =
     self\<lparr>bytes_downloaded := bytes_downloaded self + bytes_count,
          recent_bytes := deque_append (recent_bytes self) bytes_count,
          recent_times := deque_append (recent_times self) current_time\<rparr>"

definition get_speed :: "DownloadStats \<Rightarrow> real" where
  "get_speed self =
     (if length (recent_times self) < 2 then 0
      else
        let total_bytes = sum_list (recent_bytes self);
            time_span = last (recent_times self) - hd (recent_times self)
        in if time_span > 0 then (real_of_int total_bytes / time_span) / (1024 * 1024)
           else 0)"

definition get_total_downloaded :: "DownloadStats \<Rightarrow> real" where
  "get_total_downloaded self = real_of_int (bytes_downloaded self) / (1024 * 1024)"

text \<open>A tracker state as the program reaches it: constructed at \<open>t0\<close>, then fed the
  samples \<open>(bytes_count, clock reading)\<close> in the order the lock admitted them.\<close>

definition record_all :: "real \<Rightarrow> (int \<times> real) list \<Rightarrow> DownloadStats" where
  "record_all t0 samples = foldl (\<lambda>s (n, t). add_bytes s n t) (DownloadStats_init t0) samples"

text \<open>The rolling window of a sample history: its last ten entries.\<close>

definition window :: "'a list \<Rightarrow> 'a list" where
  "window xs = drop (length xs - deque_maxlen) xs"


section \<open>Instants (datetime) and the URL range generator\<close>

text \<open>
  A naive \<open>datetime\<close>. Python does its arithmetic on the proleptic Gregorian ordinal of
  the date (\<open>toordinal()\<close>: day 1 is 0001-01-01, \<open>date.max\<close> is day 3652059, that is
  9999-12-31), so the date is kept as that ordinal and the time of day as the four fields
  of the object. A value of the Python type satisfies \<open>valid_datetime\<close>.
\<close>

record datetime =
  ordinal :: int
  hour :: int
  minute :: int
  second :: int
  microsecond :: int

datatype py_error = OverflowError | ValueError | TypeError

definition MAXORDINAL :: int where
  "MAXORDINAL = 3652059"

definition valid_datetime :: "datetime \<Rightarrow> bool" where
  "valid_datetime d =
     (1 \<le> ordinal d \<and> ordinal d \<le> MAXORDINAL \<and> 0 \<le> hour d \<and> hour d < 24 \<and>
      0 \<le> minute d \<and> minute d < 60 \<and> 0 \<le> second d \<and> second d < 60 \<and>
      0 \<le> microsecond d \<and> microsecond d < 1000000)"

text \<open>\<open>a <= b\<close> on datetimes: lexicographic on date and time-of-day fields.\<close>

definition dt_le :: "datetime \<Rightarrow> datetime \<Rightarrow> bool" where
  "dt_le a b =
     (ordinal a < ordinal b \<or> (ordinal a = ordinal b \<and>
       (hour a < hour b \<or> (hour a = hour b \<and>
         (minute a < minute b \<or> (minute a = minute b \<and>
           (second a < second b \<or> (second a = second b \<and>
             microsecond a \<le> microsecond b))))))))"

text \<open>\<open>d + timedelta(hours=1)\<close>: the sum is normalised into days and seconds, and
  \<open>OverflowError\<close> is raised when the day leaves \<open>1..MAXORDINAL\<close>.\<close>

definition add_one_hour :: "datetime \<Rightarrow> py_error + datetime" where
  "add_one_hour d =
     (let secs = hour d * 3600 + minute d * 60 + second d + 3600;
          days = ordinal d + secs div 86400;
          rem = secs mod 86400
      in if 0 < days \<and> days \<le> MAXORDINAL
         then Inr (d\<lparr>ordinal := days, hour := rem div 3600,
                     minute := (rem mod 3600) div 60, second := rem mod 60\<rparr>)
         else Inl OverflowError)"

subsection \<open>Calendar date of an ordinal, and formatting\<close>

definition is_leap :: "int \<Rightarrow> bool" where
  "is_leap y = (y mod 4 = 0 \<and> (y mod 100 \<noteq> 0 \<or> y mod 400 = 0))"

definition days_before_year :: "int \<Rightarrow> int" where
  "days_before_year y = (let y1 = y - 1 in y1 * 365 + y1 div 4 - y1 div 100 + y1 div 400)"

definition DAYS_IN_MONTH :: "int list" where
  "DAYS_IN_MONTH = [0, 31, 28, 31, 30, 31, 30, 31, 31, 30, 31, 30, 31]"

definition DAYS_BEFORE_MONTH :: "int list" where
  "DAYS_BEFORE_MONTH = [0, 0, 31, 59, 90, 120, 151, 181, 212, 243, 273, 304, 334]"

definition days_before_month :: "int \<Rightarrow> int \<Rightarrow> int" where
  "days_before_month y m =
     DAYS_BEFORE_MONTH ! nat m + (if m > 2 \<and> is_leap y then 1 else 0)"

definition ymd2ord :: "int \<Rightarrow> int \<Rightarrow> int \<Rightarrow> int" where
  "ymd2ord y m d = days_before_year y + days_before_month y m + d"

text \<open>\<open>_ord2ymd\<close> of the datetime module: (year, month, day) of an ordinal.\<close>

definition ord2ymd :: "int \<Rightarrow> int \<times> int \<times> int" where
  "ord2ymd n0 =
     (let n = n0 - 1;
          n400 = n div 146097; n = n mod 146097;
          n100 = n div 36524; n = n mod 36524;
          n4 = n div 1461; n = n mod 1461;
          n1 = n div 365; n = n mod 365;
          y = n400 * 400 + 1 + n100 * 100 + n4 * 4 + n1
      in if n1 = 4 \<or> n100 = 4 then (y - 1, 12, 31)
         else
           let leapyear = (n1 = 3 \<and> (n4 \<noteq> 24 \<or> n100 = 3));
               m = (n + 50) div 32;
               preceding = DAYS_BEFORE_MONTH ! nat m + (if m > 2 \<and> leapyear then 1 else 0)
           in if preceding > n
              then let m' = m - 1;
                       preceding' = preceding -
                         (DAYS_IN_MONTH ! nat m' + (if m' = 2 \<and> leapyear then 1 else 0))
                   in (y, m', n - preceding' + 1)
              else (y, m, n - preceding + 1))"

definition digit_char :: "int \<Rightarrow> char" where
  "digit_char n = ''0123456789'' ! nat (n mod 10)"

text \<open>The decimal digits of a non-negative integer.\<close>

function str_digits :: "int \<Rightarrow> string" where
  "str_digits n = (if n < 10 then [digit_char n] else str_digits (n div 10) @ [digit_char n])"
  by pat_completeness auto
termination
  by (relation "measure nat") auto

declare str_digits.simps [simp del]

text \<open>\<open>str(i)\<close> of an integer.\<close>

definition str_int :: "int \<Rightarrow> string" where
  "str_int i = (if i < 0 then CHR ''-'' # str_digits (- i) else str_digits i)"

text \<open>
  \<open>strftime('%Y-%m-%d')\<close>: the month and the day are zero-padded to two digits. The year
  is printed as the C library prints it; glibc does not pad it, so a year before 1000 has
  fewer than four digits (years from 1000 on have four on every platform).
\<close>

definition zero_pad :: "nat \<Rightarrow> string \<Rightarrow> string" where
  "zero_pad width s = replicate (width - length s) (CHR ''0'') @ s"

definition strftime_ymd :: "datetime \<Rightarrow> string" where
  "strftime_ymd d =
     (case ord2ymd (ordinal d) of
        (y, m, dd) \<Rightarrow> str_int y @ ''-'' @ zero_pad 2 (str_int m) @ ''-'' @
                      zero_pad 2 (str_int dd))"

definition archive_url :: "datetime \<Rightarrow> string" where
  "archive_url current =
     ''https://data.gharchive.org/'' @ strftime_ymd current @ ''-'' @ str_int (hour current) @
     ''.json.gz''"

subsection \<open>generate_urls\<close>

text \<open>Whole seconds from the start of day 0 to an instant: the measure of the loop.\<close>

definition linear_seconds :: "datetime \<Rightarrow> int" where
  "linear_seconds d = ordinal d * 86400 + hour d * 3600 + minute d * 60 + second d"

function generate_loop ::
  "datetime \<Rightarrow> datetime \<Rightarrow> (string \<times> datetime) list \<Rightarrow> py_error + (string \<times> datetime) list"
where
  "generate_loop current end_dt urls =
     (if dt_le current end_dt
      then (case add_one_hour current of
              Inl e \<Rightarrow> Inl e
            | Inr nxt \<Rightarrow> generate_loop nxt end_dt (urls @ [(archive_url current, current)]))
      else Inr urls)"
  by pat_completeness auto

termination generate_loop
proof (relation "measure (\<lambda>(current, end_dt, urls).
                   nat ((MAXORDINAL + 1) * 86400 - linear_seconds current))")
  show "wf (measure (\<lambda>(current, end_dt, urls).
              nat ((MAXORDINAL + 1) * 86400 - linear_seconds current)))"
    by simp
next
  fix current end_dt :: datetime and urls :: "(string \<times> datetime) list" and nxt
  assume "dt_le current end_dt" and step: "add_one_hour current = Inr nxt"
  define secs where "secs = hour current * 3600 + minute current * 60 + second current + 3600"
  define r where "r = secs mod 86400"
  from step have le: "ordinal current + secs div 86400 \<le> MAXORDINAL"
    by (simp add: add_one_hour_def Let_def secs_def split: if_splits)
  from step have nxt: "nxt = current\<lparr>ordinal := ordinal current + secs div 86400,
      hour := r div 3600, minute := (r mod 3600) div 60, second := r mod 60\<rparr>"
    by (simp add: add_one_hour_def Let_def secs_def r_def split: if_splits)
  have "r mod 60 = (r mod 3600) mod 60"
    by (simp add: mod_mod_cancel)
  then have tod: "(r div 3600) * 3600 + ((r mod 3600) div 60) * 60 + r mod 60 = r"
    by simp
  have r: "r < 86400" by (simp add: r_def)
  have split: "secs div 86400 * 86400 + r = secs" by (simp add: r_def)
  have "linear_seconds nxt =
          (ordinal current + secs div 86400) * 86400 +
          ((r div 3600) * 3600 + ((r mod 3600) div 60) * 60 + r mod 60)"
    by (simp add: nxt linear_seconds_def)
  then have ls: "linear_seconds nxt = (ordinal current + secs div 86400) * 86400 + r"
    by (simp only: tod)
  then have "linear_seconds nxt = ordinal current * 86400 + (secs div 86400 * 86400 + r)"
    by (simp only: distrib_right add.assoc)
  then have "linear_seconds nxt = ordinal current * 86400 + secs"
    by (simp only: split)
  then have up: "linear_seconds nxt = linear_seconds current + 3600"
    by (simp add: linear_seconds_def secs_def)
  have "(ordinal current + secs div 86400) * 86400 \<le> MAXORDINAL * 86400"
    using le by simp
  then have bound: "linear_seconds nxt < (MAXORDINAL + 1) * 86400"
    using r unfolding ls by (simp add: distrib_right)
  from up bound
  show "((nxt, end_dt, urls @ [(archive_url current, current)]), (current, end_dt, urls))
          \<in> measure (\<lambda>(current, end_dt, urls).
                nat ((MAXORDINAL + 1) * 86400 - linear_seconds current))"
    by simp
qed

declare generate_loop.simps [simp del]

definition generate_urls :: "datetime \<Rightarrow> datetime \<Rightarrow> py_error + (string \<times> datetime) list" where
  "generate_urls start_dt end_dt =
     generate_loop (start_dt\<lparr>minute := 0, second := 0, microsecond := 0\<rparr>) end_dt []"

text \<open>A datetime from its calendar fields, as the constructor \<open>datetime(y, m, d, h, mi, s, us)\<close>
  builds it.\<close>

definition mk_datetime :: "int \<Rightarrow> int \<Rightarrow> int \<Rightarrow> int \<Rightarrow> int \<Rightarrow> int \<Rightarrow> int \<Rightarrow> datetime" where
  "mk_datetime y m d h mi s us =
     \<lparr>ordinal = ymd2ord y m d, hour = h, minute = mi, second = s, microsecond = us\<rparr>"

section \<open>Paths, URLs and the filesystem\<close>

text \<open>
  \<open>os.path.basename\<close> and \<open>os.path.join\<close> (POSIX), and the \<open>path\<close> component of
  \<open>urllib.parse.urlparse\<close>: leading control characters and spaces are stripped and every
  TAB, CR and LF removed; then come the scheme up to the first colon, the network location
  after \<open>//\<close>, and the text before the first \<open>#\<close> or \<open>?\<close>, without the parameters
  that follow a \<open>;\<close> in the last segment. \<open>urlparse\<close> raises \<open>ValueError\<close> for a
  network location with a malformed bracketed host; that is not modelled (\<open>url_path\<close> is
  total), so the model of \<open>download_file\<close> is the function on the URLs \<open>urlparse\<close>
  accepts, which include every URL \<open>generate_urls\<close> builds.
\<close>

definition basename :: "string \<Rightarrow> string" where
  "basename p = rev (takeWhile (\<lambda>c. c \<noteq> CHR ''/'') (rev p))"

definition path_join :: "string \<Rightarrow> string \<Rightarrow> string" where
  "path_join a b =
     (if b \<noteq> [] \<and> hd b = CHR ''/'' then b
      else if a = [] \<or> last a = CHR ''/'' then a @ b
      else a @ ''/'' @ b)"

definition ascii_letters :: string where
  "ascii_letters = ''abcdefghijklmnopqrstuvwxyzABCDEFGHIJKLMNOPQRSTUVWXYZ''"

definition scheme_chars :: string where
  "scheme_chars = ascii_letters @ ''0123456789+-.''"

definition lower_char :: "char \<Rightarrow> char" where
  "lower_char c =
     (case map_of (zip ''ABCDEFGHIJKLMNOPQRSTUVWXYZ'' ''abcdefghijklmnopqrstuvwxyz'') c of
        None \<Rightarrow> c | Some l \<Rightarrow> l)"

definition uses_params :: "string list" where
  "uses_params = [[], ''ftp'', ''hdl'', ''prospero'', ''http'', ''imap'', ''https'', ''shttp'',
                  ''rtsp'', ''rtspu'', ''sip'', ''sips'', ''mms'', ''sftp'', ''tel'']"

definition split_scheme :: "string \<Rightarrow> string \<times> string" where
  "split_scheme url =
     (let pre = takeWhile (\<lambda>c. c \<noteq> CHR '':'') url
      in if pre \<noteq> [] \<and> length pre < length url \<and> hd pre \<in> set ascii_letters \<and>
            list_all (\<lambda>c. c \<in> set scheme_chars) pre
         then (map lower_char pre, drop (Suc (length pre)) url)
         else ([], url))"

definition split_params :: "string \<Rightarrow> string" where
  "split_params p =
     (let seg = basename p
      in take (length p - length seg) p @ takeWhile (\<lambda>c. c \<noteq> CHR '';'') seg)"

definition strip_unsafe :: "string \<Rightarrow> string" where
  "strip_unsafe url =
     filter (\<lambda>c. c \<notin> set [CHR 0x09, CHR 0x0A, CHR 0x0D])
       (dropWhile (\<lambda>c. of_char c \<le> (32::nat)) url)"

definition url_path :: "string \<Rightarrow> string" where
  "url_path url =
     (case split_scheme (strip_unsafe url) of
        (scheme, rest) \<Rightarrow>
          let rest' = (if take 2 rest = ''//''
                       then dropWhile (\<lambda>c. c \<notin> set ''/?#'') (drop 2 rest) else rest);
              p = takeWhile (\<lambda>c. c \<notin> set ''#?'') rest'
          in if scheme \<in> set uses_params then split_params p else p)"

text \<open>
  The filesystem: the directories that exist and the content of each regular file, both
  keyed by the path string the program uses. \<open>os.path.exists\<close> holds of a path that is
  either. \<open>os.makedirs(p, exist_ok=True)\<close> creates \<open>p\<close> and its missing ancestors;
  \<open>open(p, 'wb')\<close> creates or truncates the file; \<open>f.write\<close> appends. Two spellings of
  one path (a trailing or doubled slash, \<open>.\<close> and \<open>..\<close> segments, links) are two keys
  here, where the operating system resolves them to one file. The program forms each
  target path once, as \<open>os.path.join(output_path, filename)\<close>, and uses that one string
  for the test and for the write; the spellings differ only when the file name is empty,
  which no generated URL has.
\<close>

record filesystem =
  dirs :: "string set"
  files :: "string \<rightharpoonup> string"

definition path_exists :: "filesystem \<Rightarrow> string \<Rightarrow> bool" where
  "path_exists fsys p = (p \<in> dirs fsys \<or> files fsys p \<noteq> None)"

definition dir_prefixes :: "string \<Rightarrow> string list" where
  "dir_prefixes p = [take i p. i \<leftarrow> [1..<length p], p ! i = CHR ''/''] @ [p]"

definition makedirs :: "filesystem \<Rightarrow> string \<Rightarrow> filesystem" where
  "makedirs fsys p = fsys\<lparr>dirs := dirs fsys \<union> set (dir_prefixes p)\<rparr>"

definition open_wb :: "filesystem \<Rightarrow> string \<Rightarrow> filesystem" where
  "open_wb fsys p = fsys\<lparr>files := (files fsys)(p \<mapsto> [])\<rparr>"

definition write_bytes :: "filesystem \<Rightarrow> string \<Rightarrow> string \<Rightarrow> filesystem" where
  "write_bytes fsys p data =
     fsys\<lparr>files := (files fsys)(p \<mapsto> (case files fsys p of None \<Rightarrow> data | Some old \<Rightarrow> old @ data))\<rparr>"

section \<open>The single-file fetcher (download_file)\<close>

text \<open>
  What a run of the fetcher touches: the filesystem, the shared statistics tracker, and
  the outside world, of which the trace keeps the HTTP requests issued and the sleeps
  taken, in order.
\<close>

datatype event = HttpGet string | Sleep int

record world =
  fs :: filesystem
  stats :: DownloadStats
  trace :: "event list"

text \<open>
  An exception raised inside the \<open>try\<close> block, as the two \<open>except\<close> clauses tell them
  apart: a \<open>requests.exceptions.RequestException\<close> (connection errors, timeouts, the
  \<open>HTTPError\<close> of \<open>raise_for_status\<close>, errors while streaming the body), or any other
  \<open>Exception\<close> (an \<open>OSError\<close> of the disk, a \<open>ValueError\<close>). The string is \<open>str(e)\<close>.
  Signals that are not an \<open>Exception\<close> (a keyboard interrupt) end the process and are
  not modelled.
\<close>

datatype exn = RequestException string | OtherException string

text \<open>
  What the network and the disk do during one attempt: for each call of the \<open>try\<close>
  block, the exception it raises, if any; the status line of the response; the chunks
  \<open>iter_content\<close> yields, each with the outcome of its \<open>f.write\<close> and the clock
  reading \<open>add_bytes\<close> takes; \<open>iter_raises\<close> is raised by the iterator after the listed
  chunks, \<open>close_raises\<close> by the file's close when the \<open>with\<close> block is left.
\<close>

record chunk_io =
  chunk :: string
  write_raises :: "exn option"
  clock :: real

record attempt_env =
  get_raises :: "exn option"
  status_code :: int
  reason :: string
  makedirs_raises :: "exn option"
  content_length_raises :: "exn option"
  open_raises :: "exn option"
  chunks :: "chunk_io list"
  iter_raises :: "exn option"
  close_raises :: "exn option"

text \<open>\<open>response.raise_for_status()\<close>: an \<open>HTTPError\<close> for a 4xx or 5xx status.\<close>

definition raise_for_status :: "string \<Rightarrow> attempt_env \<Rightarrow> exn option" where
  "raise_for_status url env =
     (if 400 \<le> status_code env \<and> status_code env < 500
      then Some (RequestException (str_int (status_code env) @ '' Client Error: '' @ reason env @
                                   '' for url: '' @ url))
      else if 500 \<le> status_code env \<and> status_code env < 600
      then Some (RequestException (str_int (status_code env) @ '' Server Error: '' @ reason env @
                                   '' for url: '' @ url))
      else None)"

text \<open>The loop over \<open>response.iter_content\<close>: an empty chunk is skipped; a chunk is
  written, added to \<open>downloaded_size\<close> and reported to the tracker.\<close>

fun write_chunks :: "string \<Rightarrow> chunk_io list \<Rightarrow> int \<Rightarrow> world \<Rightarrow> (exn + int) \<times> world" where
  "write_chunks filepath [] downloaded_size w = (Inr downloaded_size, w)"
| "write_chunks filepath (c # cs) downloaded_size w =
     (if chunk c \<noteq> []
      then (case write_raises c of
              Some e \<Rightarrow> (Inl e, w)
            | None \<Rightarrow>
                let chunk_size = int (length (chunk c))
                in write_chunks filepath cs (downloaded_size + chunk_size)
                     (w\<lparr>fs := write_bytes (fs w) filepath (chunk c),
                        stats := add_bytes (stats w) chunk_size (clock c)\<rparr>))
      else write_chunks filepath cs downloaded_size w)"

text \<open>Leaving the \<open>with\<close> block closes the file, on the normal and on the exceptional
  path; an exception of the close replaces the one in flight.\<close>

definition with_exit :: "attempt_env \<Rightarrow> (exn + int) \<times> world \<Rightarrow> (exn + int) \<times> world" where
  "with_exit env r = (case close_raises env of Some e \<Rightarrow> (Inl e, snd r) | None \<Rightarrow> r)"

text \<open>The body of the \<open>try\<close> block: \<open>Inr downloaded_size\<close> when it reaches its
  \<open>return\<close>, \<open>Inl e\<close> when \<open>e\<close> is raised.\<close>

definition attempt_body ::
  "string \<Rightarrow> string \<Rightarrow> string \<Rightarrow> attempt_env \<Rightarrow> world \<Rightarrow> (exn + int) \<times> world" where
  "attempt_body url output_path filepath env w0 =
     (let w1 = w0\<lparr>trace := trace w0 @ [HttpGet url]\<rparr>
      in case get_raises env of Some e \<Rightarrow> (Inl e, w1) | None \<Rightarrow>
         (case raise_for_status url env of Some e \<Rightarrow> (Inl e, w1) | None \<Rightarrow>
         (case makedirs_raises env of Some e \<Rightarrow> (Inl e, w1) | None \<Rightarrow>
         (let w2 = w1\<lparr>fs := makedirs (fs w1) output_path\<rparr>
          in case content_length_raises env of Some e \<Rightarrow> (Inl e, w2) | None \<Rightarrow>
             (case open_raises env of Some e \<Rightarrow> (Inl e, w2) | None \<Rightarrow>
             (let w3 = w2\<lparr>fs := open_wb (fs w2) filepath\<rparr>
              in with_exit env
                   (case write_chunks filepath (chunks env) 0 w3 of
                      (Inl e, w4) \<Rightarrow> (Inl e, w4)
                    | (Inr downloaded_size, w4) \<Rightarrow>
                        (case iter_raises env of
                           Some e \<Rightarrow> (Inl e, w4)
                         | None \<Rightarrow> (Inr downloaded_size, w4)))))))))"

type_synonym DownloadResult = "string \<times> bool \<times> string \<times> int"

text \<open>
  \<open>for attempt in range(max_retries)\<close>, over the list of attempt numbers still to run.
  Falling out of the loop is falling off the end of the function: Python returns \<open>None\<close>,
  here no result. \<open>time.sleep\<close> is taken to return (CPython rejects a sleep of more than
  about \<open>2^33\<close> seconds, which takes centuries of earlier sleeps to reach).
\<close>

fun retry_loop ::
  "string \<Rightarrow> string \<Rightarrow> string \<Rightarrow> string \<Rightarrow> int \<Rightarrow> (nat \<Rightarrow> attempt_env) \<Rightarrow> nat list \<Rightarrow> world \<Rightarrow>
     DownloadResult option \<times> world" where
  "retry_loop url output_path filename filepath max_retries script [] w = (None, w)"
| "retry_loop url output_path filename filepath max_retries script (attempt # rest) w =
     (case attempt_body url output_path filepath (script attempt) w of
        (Inr downloaded_size, w') \<Rightarrow>
          (Some (url, True, ''Downloaded: '' @ filename, downloaded_size), w')
      | (Inl (RequestException e), w') \<Rightarrow>
          if int attempt = max_retries - 1
          then (Some (url, False,
                  ''Failed after '' @ str_int max_retries @ '' attempts: '' @ filename @ '' - '' @ e,
                  0), w')
          else retry_loop url output_path filename filepath max_retries script rest
                 (w'\<lparr>trace := trace w' @ [Sleep (2 ^ attempt)]\<rparr>)
      | (Inl (OtherException e), w') \<Rightarrow>
          (Some (url, False, ''Error downloading '' @ filename @ '': '' @ e, 0), w'))"

definition download_file ::
  "string \<Rightarrow> string \<Rightarrow> int \<Rightarrow> (nat \<Rightarrow> attempt_env) \<Rightarrow> world \<Rightarrow> DownloadResult option \<times> world" where
  "download_file url output_path max_retries script w =
     (let filename = basename (url_path url);
          filepath = path_join output_path filename
      in if path_exists (fs w) filepath
         then (Some (url, True, ''Already exists: '' @ filename, 0), w)
         else retry_loop url output_path filename filepath max_retries script
                [0..<nat max_retries] w)"

subsection \<open>What an attempt does, read off its environment\<close>

text \<open>
  The exception with which the \<open>try\<close> block ends under an environment (\<open>None\<close> when
  it reaches its \<open>return\<close>) and the bytes it reports to the tracker on the way. Both are
  projections of \<open>attempt_body\<close> that do not depend on the state it starts from, as
  \<open>attempt_body_outcome\<close> and \<open>attempt_body_bytes\<close> below prove.
\<close>

fun stream_outcome :: "chunk_io list \<Rightarrow> exn option" where
  "stream_outcome [] = None"
| "stream_outcome (c # cs) =
     (if chunk c \<noteq> []
      then (case write_raises c of Some e \<Rightarrow> Some e | None \<Rightarrow> stream_outcome cs)
      else stream_outcome cs)"

fun stream_bytes :: "chunk_io list \<Rightarrow> int" where
  "stream_bytes [] = 0"
| "stream_bytes (c # cs) =
     (if chunk c \<noteq> []
      then (case write_raises c of
              Some e \<Rightarrow> 0
            | None \<Rightarrow> int (length (chunk c)) + stream_bytes cs)
      else stream_bytes cs)"

definition reaches_stream :: "string \<Rightarrow> attempt_env \<Rightarrow> bool" where
  "reaches_stream url env =
     (get_raises env = None \<and> raise_for_status url env = None \<and> makedirs_raises env = None \<and>
      content_length_raises env = None \<and> open_raises env = None)"

definition try_outcome :: "string \<Rightarrow> attempt_env \<Rightarrow> exn option" where
  "try_outcome url env =
     (case get_raises env of Some e \<Rightarrow> Some e | None \<Rightarrow>
     (case raise_for_status url env of Some e \<Rightarrow> Some e | None \<Rightarrow>
     (case makedirs_raises env of Some e \<Rightarrow> Some e | None \<Rightarrow>
     (case content_length_raises env of Some e \<Rightarrow> Some e | None \<Rightarrow>
     (case open_raises env of Some e \<Rightarrow> Some e | None \<Rightarrow>
     (case close_raises env of Some e \<Rightarrow> Some e | None \<Rightarrow>
     (case stream_outcome (chunks env) of Some e \<Rightarrow> Some e | None \<Rightarrow> iter_raises env)))))))"

definition bytes_reported :: "string \<Rightarrow> attempt_env \<Rightarrow> int" where
  "bytes_reported url env = (if reaches_stream url env then stream_bytes (chunks env) else 0)"

text \<open>An attempt that ends in a transport error.\<close>

definition transport_error :: "string \<Rightarrow> attempt_env \<Rightarrow> bool" where
  "transport_error url env =
     (case try_outcome url env of Some (RequestException e) \<Rightarrow> True | _ \<Rightarrow> False)"

text \<open>An attempt that raises a transport error without a response that passes the status
  check: \<open>requests.get\<close> raises it, or the response has an error status.\<close>

definition fails_before_response :: "attempt_env \<Rightarrow> bool" where
  "fails_before_response env =
     (case get_raises env of
        Some (RequestException e) \<Rightarrow> True
      | Some (OtherException e) \<Rightarrow> False
      | None \<Rightarrow> 400 \<le> status_code env \<and> status_code env < 600)"

text \<open>The state after an attempt that ended in a transport error and the sleep that
  follows it; and the request and the sleep it leaves in the trace.\<close>

definition failed_attempt :: "string \<Rightarrow> string \<Rightarrow> string \<Rightarrow> (nat \<Rightarrow> attempt_env) \<Rightarrow> world \<Rightarrow> nat \<Rightarrow> world" where
  "failed_attempt url output_path filepath script w attempt =
     (let w' = snd (attempt_body url output_path filepath (script attempt) w)
      in w'\<lparr>trace := trace w' @ [Sleep (2 ^ attempt)]\<rparr>)"

definition backoff_trace :: "string \<Rightarrow> nat list \<Rightarrow> event list" where
  "backoff_trace url attempts = concat (map (\<lambda>attempt. [HttpGet url, Sleep (2 ^ attempt)]) attempts)"

text \<open>The target path of a URL in an output directory, and the bytes a result reports.\<close>

definition target_path :: "string \<Rightarrow> string \<Rightarrow> string" where
  "target_path output_path url = path_join output_path (basename (url_path url))"

definition result_bytes :: "DownloadResult option \<Rightarrow> int" where
  "result_bytes r = (case r of None \<Rightarrow> 0 | Some (url, success, message, sz) \<Rightarrow> sz)"

definition result_url :: "DownloadResult option \<Rightarrow> string" where
  "result_url r = (case r of None \<Rightarrow> [] | Some (url, success, message, sz) \<Rightarrow> url)"

definition result_success :: "DownloadResult option \<Rightarrow> bool" where
  "result_success r = (case r of None \<Rightarrow> False | Some (url, success, message, sz) \<Rightarrow> success)"

section \<open>The download orchestrator (download_archives)\<close>

text \<open>
  The thread pool runs one \<open>download_file(url, output_path, stats)\<close> per generated URL,
  with the default \<open>max_retries=3\<close>. A fetcher is taken to run as one step; the order in
  which the fetchers run and complete is the schedule's choice: with \<open>k + 1\<close> tasks left,
  the task at position \<open>sched k mod (k + 1)\<close> of the pending list is the next to complete.
  Every order of completion is some schedule. The behaviour of the network for a URL is
  \<open>net url\<close>, one environment per attempt. The progress thread only reads the tracker
  and is left out.
\<close>

fun run_pool ::
  "(nat \<Rightarrow> nat) \<Rightarrow> nat \<Rightarrow> string list \<Rightarrow> string \<Rightarrow> (string \<Rightarrow> nat \<Rightarrow> attempt_env) \<Rightarrow> world \<Rightarrow>
     DownloadResult option list \<times> world" where
  "run_pool sched 0 pending output_path net w = ([], w)"
| "run_pool sched (Suc k) pending output_path net w =
     (if pending = [] then ([], w)
      else
        let i = sched k mod length pending;
            url = pending ! i
        in case download_file url output_path 3 (net url) w of
             (r, w') \<Rightarrow>
               (case run_pool sched k (take i pending @ drop (Suc i) pending) output_path net w' of
                  (rs, w'') \<Rightarrow> (r # rs, w'')))"

text \<open>The loop over \<open>as_completed\<close>: \<open>url, success, message, size = future.result()\<close>
  raises \<open>TypeError\<close> on a result that is \<open>None\<close>; otherwise one of the two counters
  goes up.\<close>

fun tally :: "DownloadResult option list \<Rightarrow> nat \<Rightarrow> nat \<Rightarrow> py_error + nat \<times> nat" where
  "tally [] successful failed = Inr (successful, failed)"
| "tally (None # rs) successful failed = Inl TypeError"
| "tally (Some (url, success, message, sz) # rs) successful failed =
     (if success then tally rs (successful + 1) failed else tally rs successful (failed + 1))"

text \<open>The final statistics, as they are printed.\<close>

record Summary =
  successful :: nat
  failed :: nat
  total :: nat
  total_downloaded :: real
  total_time :: real
  avg_speed :: real

text \<open>
  The part of \<open>download_archives\<close> after the URLs are generated. The result is \<open>None\<close>
  when there is nothing to download (the early \<open>return\<close>), else the summary, the results
  in completion order and the state left behind. \<open>t_start\<close> and \<open>t_end\<close> are the clock
  readings of the tracker's construction and of the final statistics.
  \<open>ThreadPoolExecutor\<close> raises \<open>ValueError\<close> for a worker count that is not positive.
\<close>

definition run_downloads ::
  "(string \<times> datetime) list \<Rightarrow> string \<Rightarrow> int \<Rightarrow> (string \<Rightarrow> nat \<Rightarrow> attempt_env) \<Rightarrow> (nat \<Rightarrow> nat) \<Rightarrow>
     real \<Rightarrow> real \<Rightarrow> filesystem \<Rightarrow>
     py_error + (Summary \<times> DownloadResult option list \<times> world) option" where
  "run_downloads urls output_path max_workers net sched t_start t_end fsys =
     (if urls = [] then Inr None
      else if max_workers \<le> 0 then Inl ValueError
      else
        case run_pool sched (length urls) (map fst urls) output_path net
               \<lparr>fs = fsys, stats = DownloadStats_init t_start, trace = []\<rparr> of
          (results, w) \<Rightarrow>
            (case tally results 0 0 of
               Inl e \<Rightarrow> Inl e
             | Inr (n_ok, n_failed) \<Rightarrow>
                 let total_dl = get_total_downloaded (stats w);
                     elapsed = t_end - start_time (stats w)
                 in Inr (Some (\<lparr>successful = n_ok, failed = n_failed, total = length urls,
                                total_downloaded = total_dl, total_time = elapsed,
                                avg_speed = (if elapsed > 0 then total_dl / elapsed else 0)\<rparr>,
                               results, w))))"

definition download_archives ::
  "datetime \<Rightarrow> datetime \<Rightarrow> string \<Rightarrow> int \<Rightarrow> (string \<Rightarrow> nat \<Rightarrow> attempt_env) \<Rightarrow> (nat \<Rightarrow> nat) \<Rightarrow>
     real \<Rightarrow> real \<Rightarrow> filesystem \<Rightarrow>
     py_error + (Summary \<times> DownloadResult option list \<times> world) option" where
  "download_archives start_dt end_dt output_path max_workers net sched t_start t_end fsys =
     (case generate_urls start_dt end_dt of
        Inl e \<Rightarrow> Inl e
      | Inr urls \<Rightarrow> run_downloads urls output_path max_workers net sched t_start t_end fsys)"

section \<open>Example environments\<close>

text \<open>Concrete behaviours of the network and the disk, used to run the model: a server
  that answers 200 with the given chunks, an unreachable server, a connection cut after
  the given chunks, a disk that refuses to open the file.\<close>

definition env_ok :: "string list \<Rightarrow> attempt_env" where
  "env_ok body =
     \<lparr>get_raises = None, status_code = 200, reason = ''OK'', makedirs_raises = None,
      content_length_raises = None, open_raises = None,
      chunks = map (\<lambda>c. \<lparr>chunk = c, write_raises = None, clock = 0\<rparr>) body,
      iter_raises = None, close_raises = None\<rparr>"

definition env_down :: attempt_env where
  "env_down = (env_ok [])\<lparr>get_raises := Some (RequestException ''Connection refused'')\<rparr>"

definition env_cut :: "string list \<Rightarrow> attempt_env" where
  "env_cut body = (env_ok body)\<lparr>iter_raises := Some (RequestException ''Connection broken'')\<rparr>"

definition env_disk_full :: attempt_env where
  "env_disk_full = (env_ok [])\<lparr>open_raises := Some (OtherException ''No space left on device'')\<rparr>"

definition empty_fs :: filesystem where
  "empty_fs = \<lparr>dirs = {}, files = Map.empty\<rparr>"

definition fresh_world :: world where
  "fresh_world = \<lparr>fs = empty_fs, stats = DownloadStats_init 0, trace = []\<rparr>"

text \<open>An example range: the three hours from 10:00 to 12:00 of 2024-01-01.\<close>

definition example_start :: datetime where
  "example_start = mk_datetime 2024 1 1 10 0 0 0"

definition example_end :: datetime where
  "example_end = mk_datetime 2024 1 1 12 0 0 0"

section \<open>Properties of the statistics tracker\<close>

lemma window_snoc: "window (xs @ [x]) = deque_append (window xs) x"
proof (cases "length xs < deque_maxlen")
  case True
  then show ?thesis by (simp add: deque_append_def window_def Let_def)
next
  case False
  define k where "k = length xs - deque_maxlen"
  from False have len: "length xs = k + deque_maxlen" by (simp add: k_def)
  then have ne: "drop k xs \<noteq> []" by (simp add: deque_maxlen_def)
  have "tl (drop k xs @ [x]) = tl (drop k xs) @ [x]"
    using ne by (cases "drop k xs") simp_all
  moreover have "tl (drop k xs) = drop (Suc k) xs"
    by (simp add: drop_Suc tl_drop)
  ultimately show ?thesis
    by (simp add: deque_append_def window_def Let_def len deque_maxlen_def)
qed

lemma window_map: "window (map f xs) = map f (window xs)"
  by (simp add: window_def drop_map)

lemma window_empty_iff: "window xs = [] \<longleftrightarrow> xs = []"
  by (cases xs) (simp_all add: window_def deque_maxlen_def)

lemma length_window: "length (window xs) = min (length xs) deque_maxlen"
  by (simp add: window_def)

lemma record_all_snoc: "record_all t0 (samples @ [(n, t)]) = add_bytes (record_all t0 samples) n t"
  by (simp add: record_all_def)

lemma record_all_fields:
  "bytes_downloaded (record_all t0 samples) = sum_list (map fst samples) \<and>
   start_time (record_all t0 samples) = t0 \<and>
   recent_bytes (record_all t0 samples) = window (map fst samples) \<and>
   recent_times (record_all t0 samples) = window (map snd samples)"
proof (induction samples rule: rev_induct)
  case Nil
  show ?case by (simp add: record_all_def DownloadStats_init_def window_def)
next
  case (snoc p samples)
  obtain n t where p: "p = (n, t)" by (cases p)
  show ?case using snoc unfolding p record_all_snoc
    by (simp add: add_bytes_def window_snoc)
qed

text \<open>
  Claim C7, as the code has it. After any history of recorded samples the deques hold the
  window (the last ten samples), and the speed read is 0 when the window has fewer than two
  samples; otherwise, when the newest timestamp of the window is later than the oldest, it is
  the sum of the window's byte counts divided by the time span, in MiB per second; and it is
  0 in every other case, that is when the two timestamps are equal and also when the newest
  is earlier than the oldest (\<open>time.time()\<close> may step back). The guard is
  \<open>time_span > 0\<close>, not \<open>time_span != 0\<close>.
\<close>

theorem get_speed_of_window:
  "get_speed (record_all t0 samples) =
     (if length (window samples) < 2 then 0
      else if snd (hd (window samples)) < snd (last (window samples))
      then real_of_int (sum_list (map fst (window samples)))
             / (snd (last (window samples)) - snd (hd (window samples))) / (1024 * 1024)
      else 0)"
proof -
  let ?w = "window samples"
  have rb: "recent_bytes (record_all t0 samples) = map fst ?w"
    and rt: "recent_times (record_all t0 samples) = map snd ?w"
    by (simp_all add: record_all_fields window_map)
  show ?thesis
  proof (cases "length ?w < 2")
    case True
    then show ?thesis by (simp add: get_speed_def rt)
  next
    case False
    then have ne: "?w \<noteq> []" by auto
    then have "hd (map snd ?w) = snd (hd ?w)" "last (map snd ?w) = snd (last ?w)"
      by (simp_all add: hd_map last_map)
    with False show ?thesis
      by (simp add: get_speed_def rt rb Let_def)
  qed
qed

text \<open>Two samples of one MiB each, two seconds apart: one MiB per second.\<close>

theorem get_speed_of_window_witness:
  "get_speed (record_all 0 [(1048576, 1), (1048576, 3)]) = 1"
  using get_speed_of_window [of 0 "[(1048576, 1), (1048576, 3)]"]
  by (simp add: window_def deque_maxlen_def)

text \<open>
  Claim C7 as stated fails where the clock stepped back between two samples: the window has
  two samples, their timestamps differ, the quotient the claim asks for is \<open>-2\<close>, and the
  code returns 0.
\<close>

theorem get_speed_backwards_clock:
  "2 \<le> length (recent_times (record_all 0 [(1048576, 2), (1048576, 1)])) \<and>
   last (recent_times (record_all 0 [(1048576, 2), (1048576, 1)])) \<noteq>
     hd (recent_times (record_all 0 [(1048576, 2), (1048576, 1)])) \<and>
   get_speed (record_all 0 [(1048576, 2), (1048576, 1)]) = 0 \<and>
   real_of_int (sum_list (recent_bytes (record_all 0 [(1048576, 2), (1048576, 1)])))
     / (last (recent_times (record_all 0 [(1048576, 2), (1048576, 1)]))
        - hd (recent_times (record_all 0 [(1048576, 2), (1048576, 1)]))) / (1024 * 1024) = - 2"
  by (simp add: record_all_def add_bytes_def DownloadStats_init_def deque_append_def
      deque_maxlen_def get_speed_def)

section \<open>Properties of the URL range generator\<close>

text \<open>
  Claim C2 asks for exactly one WorkItem when \<open>start == end\<close>. For an instant in the last
  hour of the year 9999 (a datetime that \<open>parse_datetime\<close> accepts) the loop appends the
  bucket and then computes the next one, which no datetime represents: \<open>generate_urls\<close>
  raises \<open>OverflowError\<close> and returns no list.
\<close>

theorem generate_urls_overflows_in_last_hour:
  "valid_datetime (mk_datetime 9999 12 31 23 0 0 0) \<and>
   dt_le (mk_datetime 9999 12 31 23 0 0 0) (mk_datetime 9999 12 31 23 0 0 0) \<and>
   generate_urls (mk_datetime 9999 12 31 23 0 0 0) (mk_datetime 9999 12 31 23 0 0 0)
     = Inl OverflowError"
  by code_simp

section \<open>Properties of the fetcher\<close>

lemma write_chunks_outcome:
  "fst (write_chunks filepath cs n w) =
     (case stream_outcome cs of Some e \<Rightarrow> Inl e | None \<Rightarrow> Inr (n + stream_bytes cs))"
  by (induction cs arbitrary: n w) (auto simp: Let_def split: option.splits)

lemma write_chunks_trace: "trace (snd (write_chunks filepath cs n w)) = trace w"
  by (induction cs arbitrary: n w) (auto simp: Let_def split: option.splits)

lemma write_chunks_bytes:
  "bytes_downloaded (stats (snd (write_chunks filepath cs n w))) =
     bytes_downloaded (stats w) + stream_bytes cs"
  by (induction cs arbitrary: n w) (auto simp: Let_def add_bytes_def split: option.splits)

lemma path_exists_write_bytes: "path_exists fsys p \<Longrightarrow> path_exists (write_bytes fsys q d) p"
  by (auto simp: path_exists_def write_bytes_def)

lemma path_exists_makedirs: "path_exists fsys p \<Longrightarrow> path_exists (makedirs fsys q) p"
  by (auto simp: path_exists_def makedirs_def)

lemma path_exists_open_wb: "path_exists fsys p \<Longrightarrow> path_exists (open_wb fsys q) p"
  by (auto simp: path_exists_def open_wb_def)

lemma path_exists_open_wb_self: "path_exists (open_wb fsys p) p"
  by (auto simp: path_exists_def open_wb_def)

lemma write_chunks_exists:
  "path_exists (fs w) p \<Longrightarrow> path_exists (fs (snd (write_chunks filepath cs n w))) p"
  by (induction cs arbitrary: n w) (auto simp: Let_def path_exists_write_bytes split: option.splits)

lemma attempt_body_outcome:
  "fst (attempt_body url output_path filepath env w) =
     (case try_outcome url env of Some e \<Rightarrow> Inl e | None \<Rightarrow> Inr (stream_bytes (chunks env)))"
proof -
  have wc: "\<And>w3. write_chunks filepath (chunks env) 0 w3 =
      ((case stream_outcome (chunks env) of Some e \<Rightarrow> Inl e | None \<Rightarrow> Inr (stream_bytes (chunks env))),
       snd (write_chunks filepath (chunks env) 0 w3))"
    using write_chunks_outcome [of filepath "chunks env" 0]
    by (simp add: prod_eq_iff split: option.splits)
  show ?thesis
    unfolding attempt_body_def try_outcome_def with_exit_def Let_def
    by (subst wc) (simp split: option.splits sum.splits)
qed



lemma snd_with_exit: "snd (with_exit env r) = snd r"
  by (simp add: with_exit_def split: option.splits)

lemma attempt_body_world:
  "snd (attempt_body url output_path filepath env w) =
     (let w1 = w\<lparr>trace := trace w @ [HttpGet url]\<rparr>
      in if reaches_stream url env
         then snd (write_chunks filepath (chunks env) 0
                     (w1\<lparr>fs := open_wb (makedirs (fs w) output_path) filepath\<rparr>))
         else if get_raises env = None \<and> raise_for_status url env = None \<and>
                 makedirs_raises env = None
         then w1\<lparr>fs := makedirs (fs w) output_path\<rparr>
         else w1)"
proof -
  have wc: "\<And>w3. snd (case write_chunks filepath (chunks env) 0 w3 of
                (Inl e, w4) \<Rightarrow> (Inl e, w4)
              | (Inr n, w4) \<Rightarrow> (case iter_raises env of Some e \<Rightarrow> (Inl e, w4) | None \<Rightarrow> (Inr n, w4)))
           = snd (write_chunks filepath (chunks env) 0 w3)"
    by (simp split: prod.splits sum.splits option.splits)
  show ?thesis
    unfolding attempt_body_def Let_def reaches_stream_def
    by (simp add: snd_with_exit wc split: option.splits)
qed

lemma attempt_body_trace:
  "trace (snd (attempt_body url output_path filepath env w)) = trace w @ [HttpGet url]"
  by (simp add: attempt_body_world Let_def write_chunks_trace)

lemma attempt_body_bytes:
  "bytes_downloaded (stats (snd (attempt_body url output_path filepath env w))) =
     bytes_downloaded (stats w) + bytes_reported url env"
  by (simp add: attempt_body_world Let_def write_chunks_bytes bytes_reported_def)

lemma attempt_body_exists:
  "path_exists (fs w) p \<Longrightarrow> path_exists (fs (snd (attempt_body url output_path filepath env w))) p"
  by (simp add: attempt_body_world Let_def write_chunks_exists path_exists_makedirs
      path_exists_open_wb)

lemma try_outcome_None_reaches: "try_outcome url env = None \<Longrightarrow> reaches_stream url env"
  by (simp add: try_outcome_def reaches_stream_def split: option.splits)

lemma attempt_body_success_exists:
  "try_outcome url env = None \<Longrightarrow>
   path_exists (fs (snd (attempt_body url output_path filepath env w))) filepath"
  by (simp add: attempt_body_world Let_def try_outcome_None_reaches write_chunks_exists
      path_exists_open_wb_self)

lemma fails_before_response_not_reaches:
  "fails_before_response env \<Longrightarrow>
   \<not> (get_raises env = None \<and> raise_for_status url env = None)"
  by (auto simp: fails_before_response_def raise_for_status_def split: option.splits exn.splits)

lemma attempt_body_fails_before_response:
  assumes "fails_before_response env"
  shows "snd (attempt_body url output_path filepath env w) = w\<lparr>trace := trace w @ [HttpGet url]\<rparr>"
    and "transport_error url env"
proof -
  from fails_before_response_not_reaches [OF assms, of url]
  show "snd (attempt_body url output_path filepath env w) = w\<lparr>trace := trace w @ [HttpGet url]\<rparr>"
    by (auto simp: attempt_body_world Let_def reaches_stream_def)
  show "transport_error url env"
    using assms
    by (auto simp: fails_before_response_def transport_error_def try_outcome_def
        raise_for_status_def split: option.splits exn.splits)
qed


lemma retry_loop_success:
  assumes "try_outcome url (script a) = None"
  shows "retry_loop url output_path filename filepath m script (a # rest) w =
           (Some (url, True, ''Downloaded: '' @ filename, stream_bytes (chunks (script a))),
            snd (attempt_body url output_path filepath (script a) w))"
proof -
  obtain r w' where b: "attempt_body url output_path filepath (script a) w = (r, w')"
    by (cases "attempt_body url output_path filepath (script a) w")
  with attempt_body_outcome [of url output_path filepath "script a" w] assms
  have "r = Inr (stream_bytes (chunks (script a)))" by simp
  with b show ?thesis by simp
qed

lemma retry_loop_other:
  assumes "try_outcome url (script a) = Some (OtherException e)"
  shows "retry_loop url output_path filename filepath m script (a # rest) w =
           (Some (url, False, ''Error downloading '' @ filename @ '': '' @ e, 0),
            snd (attempt_body url output_path filepath (script a) w))"
proof -
  obtain r w' where b: "attempt_body url output_path filepath (script a) w = (r, w')"
    by (cases "attempt_body url output_path filepath (script a) w")
  with attempt_body_outcome [of url output_path filepath "script a" w] assms
  have "r = Inl (OtherException e)" by simp
  with b show ?thesis by simp
qed

lemma retry_loop_exhausted:
  assumes "try_outcome url (script a) = Some (RequestException e)" and "int a = m - 1"
  shows "retry_loop url output_path filename filepath m script (a # rest) w =
           (Some (url, False,
              ''Failed after '' @ str_int m @ '' attempts: '' @ filename @ '' - '' @ e, 0),
            snd (attempt_body url output_path filepath (script a) w))"
proof -
  obtain r w' where b: "attempt_body url output_path filepath (script a) w = (r, w')"
    by (cases "attempt_body url output_path filepath (script a) w")
  with attempt_body_outcome [of url output_path filepath "script a" w] assms
  have "r = Inl (RequestException e)" by simp
  with b assms(2) show ?thesis by simp
qed

lemma transport_errorE:
  assumes "transport_error url env"
  obtains e where "try_outcome url env = Some (RequestException e)"
  using assms by (auto simp: transport_error_def split: option.splits exn.splits)

lemma retry_loop_retry:
  assumes "transport_error url (script a)" and "int a \<noteq> m - 1"
  shows "retry_loop url output_path filename filepath m script (a # rest) w =
           retry_loop url output_path filename filepath m script rest
             (failed_attempt url output_path filepath script w a)"
proof -
  from assms(1) obtain e where e: "try_outcome url (script a) = Some (RequestException e)"
    by (rule transport_errorE)
  obtain r w' where b: "attempt_body url output_path filepath (script a) w = (r, w')"
    by (cases "attempt_body url output_path filepath (script a) w")
  with attempt_body_outcome [of url output_path filepath "script a" w] e
  have "r = Inl (RequestException e)" by simp
  with b assms(2) show ?thesis by (simp add: failed_attempt_def)
qed

lemma retry_loop_failed_prefix:
  assumes "\<forall>k \<in> set pre. transport_error url (script k) \<and> int k \<noteq> m - 1"
  shows "retry_loop url output_path filename filepath m script (pre @ rest) w =
           retry_loop url output_path filename filepath m script rest
             (foldl (failed_attempt url output_path filepath script) w pre)"
  using assms
proof (induction pre arbitrary: w)
  case Nil
  show ?case by simp
next
  case (Cons a pre)
  then have "transport_error url (script a)" "int a \<noteq> m - 1" by simp_all
  then have "retry_loop url output_path filename filepath m script ((a # pre) @ rest) w =
      retry_loop url output_path filename filepath m script (pre @ rest)
        (failed_attempt url output_path filepath script w a)"
    using retry_loop_retry [of url script a m output_path filename filepath "pre @ rest" w]
    by simp
  also have "\<dots> = retry_loop url output_path filename filepath m script rest
      (foldl (failed_attempt url output_path filepath script)
         (failed_attempt url output_path filepath script w a) pre)"
    using Cons.prems by (intro Cons.IH) simp
  finally show ?case by simp
qed

lemma failed_attempt_trace:
  "trace (failed_attempt url output_path filepath script w a) =
     trace w @ [HttpGet url, Sleep (2 ^ a)]"
  by (simp add: failed_attempt_def Let_def attempt_body_trace)

lemma failed_prefix_trace:
  "trace (foldl (failed_attempt url output_path filepath script) w pre) =
     trace w @ backoff_trace url pre"
  by (induction pre arbitrary: w) (simp_all add: backoff_trace_def failed_attempt_trace)

lemma failed_prefix_exists:
  "path_exists (fs w) p \<Longrightarrow>
   path_exists (fs (foldl (failed_attempt url output_path filepath script) w pre)) p"
  by (induction pre arbitrary: w) (simp_all add: failed_attempt_def Let_def attempt_body_exists)

lemma upt_split_at:
  assumes "k < n"
  shows "[0..<n] = [0..<k] @ k # [Suc k..<n]"
proof -
  have "[0..<k + (n - k)] = [0..<k] @ [k..<k + (n - k)]"
    by (rule upt_add_eq_append) simp
  with assms have "[0..<n] = [0..<k] @ [k..<n]" by simp
  with assms show ?thesis by (simp add: upt_conv_Cons)
qed


lemma download_file_missing:
  assumes "\<not> path_exists (fs w) (target_path output_path url)"
  shows "download_file url output_path m script w =
           retry_loop url output_path (basename (url_path url)) (target_path output_path url)
             m script [0..<nat m] w"
  using assms by (simp add: download_file_def target_path_def Let_def)

lemma download_file_already_exists:
  assumes "path_exists (fs w) (target_path output_path url)"
  shows "download_file url output_path max_retries script w =
           (Some (url, True, ''Already exists: '' @ basename (url_path url), 0), w)"
  using assms by (simp add: download_file_def target_path_def Let_def)

lemma retry_loop_message:
  assumes "fst (retry_loop url output_path filename filepath m script as w) =
             Some (u, success, message, sz)"
  shows "take 1 message \<in> {''D'', ''F'', ''E''}"
  using assms
proof (induction as arbitrary: w)
  case Nil
  then show ?case by simp
next
  case (Cons a as)
  obtain r w' where b: "attempt_body url output_path filepath (script a) w = (r, w')"
    by (cases "attempt_body url output_path filepath (script a) w")
  show ?case
  proof (cases r)
    case (Inr n)
    with b Cons.prems show ?thesis by auto
  next
    case (Inl e)
    show ?thesis
    proof (cases e)
      case (OtherException x)
      with Inl b Cons.prems show ?thesis by auto
    next
      case (RequestException x)
      show ?thesis
      proof (cases "int a = m - 1")
        case True
        with RequestException Inl b Cons.prems show ?thesis by auto
      next
        case False
        with RequestException Inl b Cons.prems Cons.IH show ?thesis by auto
      qed
    qed
  qed
qed

text \<open>
  Claim C3. The target file does not exist. If the first \<open>N\<close> attempts end in a transport
  error (\<open>N < max_retries\<close>) and attempt \<open>N\<close> succeeds, the fetcher returns a success and
  what it added to the trace is: request, sleep \<open>2^0\<close>, request, sleep \<open>2^1\<close>, ...,
  request, sleep \<open>2^(N-1)\<close>, request. So exactly \<open>N\<close> sleeps occur, of durations
  \<open>2^0, ..., 2^(N-1)\<close> in that order, each between two consecutive attempts. If every one
  of the \<open>max_retries\<close> attempts (at least one) ends in a transport error, the fetcher
  returns a failure and the trace ends with the last request: \<open>max_retries - 1\<close> sleeps,
  none after the final attempt.
\<close>

theorem backoff_schedule:
  assumes missing: "\<not> path_exists (fs w) (target_path output_path url)"
  shows "(int N < max_retries \<and> (\<forall>k<N. transport_error url (script k)) \<and>
          try_outcome url (script N) = None \<longrightarrow>
            (\<exists>sz w'. download_file url output_path max_retries script w =
                        (Some (url, True, ''Downloaded: '' @ basename (url_path url), sz), w') \<and>
                      trace w' = trace w @ backoff_trace url [0..<N] @ [HttpGet url])) \<and>
         (0 < max_retries \<and> (\<forall>k. int k < max_retries \<longrightarrow> transport_error url (script k)) \<longrightarrow>
            (\<exists>message w'. download_file url output_path max_retries script w =
                        (Some (url, False, message, 0), w') \<and>
                      trace w' = trace w @ backoff_trace url [0..<nat max_retries - 1] @ [HttpGet url]))"
proof (intro conjI impI)
  let ?fn = "basename (url_path url)" and ?fp = "target_path output_path url"
  assume a: "int N < max_retries \<and> (\<forall>k<N. transport_error url (script k)) \<and>
          try_outcome url (script N) = None"
  then have "int N < max_retries" by blast
  then have N: "N < nat max_retries" by linarith
  have pre: "\<forall>k \<in> set [0..<N]. transport_error url (script k) \<and> int k \<noteq> max_retries - 1"
  proof
    fix k assume "k \<in> set [0..<N]"
    then have "k < N" by simp
    with \<open>int N < max_retries\<close> have "int k \<noteq> max_retries - 1" by linarith
    with a \<open>k < N\<close> show "transport_error url (script k) \<and> int k \<noteq> max_retries - 1" by blast
  qed
  let ?w1 = "foldl (failed_attempt url output_path ?fp script) w [0..<N]"
  have "download_file url output_path max_retries script w =
          retry_loop url output_path ?fn ?fp max_retries script ([0..<N] @ N # [Suc N..<nat max_retries]) w"
    using upt_split_at [OF N] by (simp add: download_file_missing [OF missing])
  also have "\<dots> = retry_loop url output_path ?fn ?fp max_retries script (N # [Suc N..<nat max_retries]) ?w1"
    by (rule retry_loop_failed_prefix [OF pre])
  also have "\<dots> = (Some (url, True, ''Downloaded: '' @ ?fn, stream_bytes (chunks (script N))),
                     snd (attempt_body url output_path ?fp (script N) ?w1))"
    using a by (intro retry_loop_success) simp
  finally have "download_file url output_path max_retries script w =
      (Some (url, True, ''Downloaded: '' @ ?fn, stream_bytes (chunks (script N))),
       snd (attempt_body url output_path ?fp (script N) ?w1))" .
  moreover have "trace (snd (attempt_body url output_path ?fp (script N) ?w1)) =
      trace w @ backoff_trace url [0..<N] @ [HttpGet url]"
    by (simp add: attempt_body_trace failed_prefix_trace)
  ultimately show "\<exists>sz w'. download_file url output_path max_retries script w =
                        (Some (url, True, ''Downloaded: '' @ ?fn, sz), w') \<and>
                      trace w' = trace w @ backoff_trace url [0..<N] @ [HttpGet url]"
    by blast
next
  let ?fn = "basename (url_path url)" and ?fp = "target_path output_path url"
  assume a: "0 < max_retries \<and> (\<forall>k. int k < max_retries \<longrightarrow> transport_error url (script k))"
  define n where "n = nat max_retries - 1"
  from a have pos: "0 < max_retries" by blast
  then have n: "n < nat max_retries" "int n = max_retries - 1"
    unfolding n_def by linarith+
  have pre: "\<forall>k \<in> set [0..<n]. transport_error url (script k) \<and> int k \<noteq> max_retries - 1"
  proof
    fix k assume "k \<in> set [0..<n]"
    then have "k < n" by simp
    with n(2) have "int k < max_retries" "int k \<noteq> max_retries - 1" by linarith+
    with a show "transport_error url (script k) \<and> int k \<noteq> max_retries - 1" by blast
  qed
  from n(2) have "int n < max_retries" by linarith
  with a have "transport_error url (script n)" by blast
  then obtain e where e: "try_outcome url (script n) = Some (RequestException e)"
    by (rule transport_errorE)
  let ?w1 = "foldl (failed_attempt url output_path ?fp script) w [0..<n]"
  have "download_file url output_path max_retries script w =
          retry_loop url output_path ?fn ?fp max_retries script ([0..<n] @ n # [Suc n..<nat max_retries]) w"
    using upt_split_at [OF n(1)] by (simp add: download_file_missing [OF missing])
  also have "\<dots> = retry_loop url output_path ?fn ?fp max_retries script (n # [Suc n..<nat max_retries]) ?w1"
    by (rule retry_loop_failed_prefix [OF pre])
  also have "\<dots> = (Some (url, False,
              ''Failed after '' @ str_int max_retries @ '' attempts: '' @ ?fn @ '' - '' @ e, 0),
            snd (attempt_body url output_path ?fp (script n) ?w1))"
    using e n(2) by (rule retry_loop_exhausted)
  finally have "download_file url output_path max_retries script w =
      (Some (url, False, ''Failed after '' @ str_int max_retries @ '' attempts: '' @ ?fn @ '' - '' @ e, 0),
       snd (attempt_body url output_path ?fp (script n) ?w1))" .
  moreover have "trace (snd (attempt_body url output_path ?fp (script n) ?w1)) =
      trace w @ backoff_trace url [0..<n] @ [HttpGet url]"
    by (simp add: attempt_body_trace failed_prefix_trace)
  ultimately show "\<exists>message w'. download_file url output_path max_retries script w =
                        (Some (url, False, message, 0), w') \<and>
                      trace w' = trace w @ backoff_trace url [0..<nat max_retries - 1] @ [HttpGet url]"
    unfolding n_def by blast
qed


text \<open>
  Claim C4. When the target path (the output directory joined with the last segment of the
  URL's path) exists, the fetcher returns the success result with 0 bytes and the message
  \<open>Already exists: <filename>\<close>, and the state it returns is the state it was given: no
  request and no sleep enters the trace, the tracker and the filesystem are unchanged.
  The message distinguishes the case: no run of the fetcher on a missing target returns a
  message with the same first letter.
\<close>

theorem existing_file_short_circuit:
  assumes "path_exists (fs w) (target_path output_path url)"
  shows "download_file url output_path max_retries script w =
           (Some (url, True, ''Already exists: '' @ basename (url_path url), 0), w) \<and>
         (\<forall>url' output_path' max_retries' script' w' u success message sz.
            \<not> path_exists (fs w') (target_path output_path' url') \<and>
            fst (download_file url' output_path' max_retries' script' w') =
              Some (u, success, message, sz) \<longrightarrow>
            take 1 message \<noteq> take 1 (''Already exists: '' @ basename (url_path url)))"
proof (intro conjI allI impI)
  show "download_file url output_path max_retries script w =
           (Some (url, True, ''Already exists: '' @ basename (url_path url), 0), w)"
    using assms by (simp add: download_file_def target_path_def Let_def)
next
  fix url' output_path' max_retries' script' w' u success message sz
  assume a: "\<not> path_exists (fs w') (target_path output_path' url') \<and>
            fst (download_file url' output_path' max_retries' script' w') =
              Some (u, success, message, sz)"
  then have m: "\<not> path_exists (fs w') (target_path output_path' url')"
    and r: "fst (download_file url' output_path' max_retries' script' w') =
              Some (u, success, message, sz)"
    by blast+
  have "fst (retry_loop url' output_path' (basename (url_path url'))
                    (target_path output_path' url') max_retries' script' [0..<nat max_retries'] w') =
               Some (u, success, message, sz)"
    using r unfolding download_file_missing [OF m] .
  then have "take 1 message \<in> {''D'', ''F'', ''E''}"
    by (rule retry_loop_message)
  then show "take 1 message \<noteq> take 1 (''Already exists: '' @ basename (url_path url))"
    by auto
qed

text \<open>The file is there and the server is unreachable: success, nothing requested.\<close>

theorem existing_file_short_circuit_witness:
  "download_file ''https://data.gharchive.org/2024-01-01-10.json.gz'' ''work/archives'' 3
     (\<lambda>attempt. env_down)
     (fresh_world\<lparr>fs := open_wb empty_fs ''work/archives/2024-01-01-10.json.gz''\<rparr>) =
   (Some (''https://data.gharchive.org/2024-01-01-10.json.gz'', True,
          ''Already exists: 2024-01-01-10.json.gz'', 0),
    fresh_world\<lparr>fs := open_wb empty_fs ''work/archives/2024-01-01-10.json.gz''\<rparr>)"
proof -
  have t: "target_path ''work/archives'' ''https://data.gharchive.org/2024-01-01-10.json.gz'' =
             ''work/archives/2024-01-01-10.json.gz''"
    and b: "basename (url_path ''https://data.gharchive.org/2024-01-01-10.json.gz'') =
             ''2024-01-01-10.json.gz''"
    by code_simp+
  have "path_exists (fs (fresh_world\<lparr>fs := open_wb empty_fs ''work/archives/2024-01-01-10.json.gz''\<rparr>))
          (target_path ''work/archives'' ''https://data.gharchive.org/2024-01-01-10.json.gz'')"
    unfolding t by (simp add: path_exists_def open_wb_def)
  from existing_file_short_circuit [OF this, of 3 "\<lambda>attempt. env_down"]
  show ?thesis unfolding b by simp
qed


lemma example_target:
  "target_path ''work/archives'' ''https://data.gharchive.org/2024-01-01-10.json.gz'' =
     ''work/archives/2024-01-01-10.json.gz''"
  "basename (url_path ''https://data.gharchive.org/2024-01-01-10.json.gz'') =
     ''2024-01-01-10.json.gz''"
  by code_simp+

lemma example_missing:
  "\<not> path_exists (fs fresh_world)
       (target_path ''work/archives'' ''https://data.gharchive.org/2024-01-01-10.json.gz'')"
  by (simp add: fresh_world_def empty_fs_def path_exists_def)

lemma example_outcomes:
  "transport_error url env_down"
  "transport_error url (env_cut body)"
  "try_outcome url (env_ok body) = None"
  "try_outcome url env_disk_full = Some (OtherException ''No space left on device'')"
  "fails_before_response env_down"
proof -
  have s: "stream_outcome (map (\<lambda>c. \<lparr>chunk = c, write_raises = None, clock = 0\<rparr>) body) = None"
    by (induction body) simp_all
  show "transport_error url env_down"
    by (simp add: transport_error_def try_outcome_def env_down_def env_ok_def)
  show "transport_error url (env_cut body)"
    by (simp add: transport_error_def try_outcome_def env_cut_def env_ok_def
        raise_for_status_def s)
  show "try_outcome url (env_ok body) = None"
    by (simp add: try_outcome_def env_ok_def raise_for_status_def s)
  show "try_outcome url env_disk_full = Some (OtherException ''No space left on device'')"
    by (simp add: try_outcome_def env_disk_full_def env_ok_def raise_for_status_def)
  show "fails_before_response env_down"
    by (simp add: fails_before_response_def env_down_def env_ok_def)
qed

text \<open>Two refused connections, then a download: sleeps of 1 and 2 seconds between the
  three requests. Three refused connections: the same trace, and a failure.\<close>

theorem backoff_schedule_witness:
  "(\<exists>sz w'. download_file ''https://data.gharchive.org/2024-01-01-10.json.gz'' ''work/archives'' 3
               (\<lambda>attempt. if attempt < 2 then env_down else env_ok [''data'']) fresh_world =
             (Some (''https://data.gharchive.org/2024-01-01-10.json.gz'', True,
                    ''Downloaded: 2024-01-01-10.json.gz'', sz), w') \<and>
           trace w' = [HttpGet ''https://data.gharchive.org/2024-01-01-10.json.gz'', Sleep 1,
                       HttpGet ''https://data.gharchive.org/2024-01-01-10.json.gz'', Sleep 2,
                       HttpGet ''https://data.gharchive.org/2024-01-01-10.json.gz'']) \<and>
   (\<exists>message w'. download_file ''https://data.gharchive.org/2024-01-01-10.json.gz'' ''work/archives'' 3
               (\<lambda>attempt. env_down) fresh_world =
             (Some (''https://data.gharchive.org/2024-01-01-10.json.gz'', False, message, 0), w') \<and>
           trace w' = [HttpGet ''https://data.gharchive.org/2024-01-01-10.json.gz'', Sleep 1,
                       HttpGet ''https://data.gharchive.org/2024-01-01-10.json.gz'', Sleep 2,
                       HttpGet ''https://data.gharchive.org/2024-01-01-10.json.gz''])"
proof -
  let ?url = "''https://data.gharchive.org/2024-01-01-10.json.gz''"
  have bt: "backoff_trace ?url [0..<2] = [HttpGet ?url, Sleep 1, HttpGet ?url, Sleep 2]"
    by code_simp
  have tr: "trace fresh_world = []" by (simp add: fresh_world_def)
  have two: "[0..<nat 3 - 1] = [0..<2]" by simp
  from backoff_schedule [OF example_missing, of 2 3 "\<lambda>attempt. if attempt < 2 then env_down else env_ok [''data'']"]
       backoff_schedule [OF example_missing, of 2 3 "\<lambda>attempt. env_down"]
  show ?thesis
    unfolding two by (simp add: example_outcomes example_target bt tr)
qed


text \<open>
  Claim C6. The target file does not exist, the attempts before attempt \<open>k\<close> ended in
  transport errors (so that attempt \<open>k\<close> runs) and attempt \<open>k\<close> raises an exception that
  is not a \<open>RequestException\<close>. Then the fetcher returns the failure
  \<open>Error downloading <filename>: <error>\<close> with 0 bytes; the trace ends with the request
  of attempt \<open>k\<close>, so no further attempt and no sleep follows it; and the message differs
  from every retry-exhaustion message \<open>Failed after <n> attempts: ...\<close>.
\<close>

theorem non_transport_error_is_terminal:
  assumes missing: "\<not> path_exists (fs w) (target_path output_path url)"
    and k: "int k < max_retries"
    and before: "\<forall>j<k. transport_error url (script j)"
    and raised: "try_outcome url (script k) = Some (OtherException e)"
  shows "\<exists>w'. download_file url output_path max_retries script w =
                 (Some (url, False,
                    ''Error downloading '' @ basename (url_path url) @ '': '' @ e, 0), w') \<and>
               trace w' = trace w @ backoff_trace url [0..<k] @ [HttpGet url] \<and>
               (\<forall>n filename e'.
                  ''Error downloading '' @ basename (url_path url) @ '': '' @ e \<noteq>
                  ''Failed after '' @ str_int n @ '' attempts: '' @ filename @ '' - '' @ e')"
proof -
  let ?fn = "basename (url_path url)" and ?fp = "target_path output_path url"
  from k have kn: "k < nat max_retries" by linarith
  have pre: "\<forall>j \<in> set [0..<k]. transport_error url (script j) \<and> int j \<noteq> max_retries - 1"
  proof
    fix j assume "j \<in> set [0..<k]"
    then have "j < k" by simp
    with k have "int j \<noteq> max_retries - 1" by linarith
    with before \<open>j < k\<close> show "transport_error url (script j) \<and> int j \<noteq> max_retries - 1"
      by blast
  qed
  let ?w1 = "foldl (failed_attempt url output_path ?fp script) w [0..<k]"
  have "download_file url output_path max_retries script w =
          retry_loop url output_path ?fn ?fp max_retries script
            ([0..<k] @ k # [Suc k..<nat max_retries]) w"
    using upt_split_at [OF kn] by (simp add: download_file_missing [OF missing])
  also have "\<dots> = retry_loop url output_path ?fn ?fp max_retries script
                      (k # [Suc k..<nat max_retries]) ?w1"
    by (rule retry_loop_failed_prefix [OF pre])
  also have "\<dots> = (Some (url, False, ''Error downloading '' @ ?fn @ '': '' @ e, 0),
                     snd (attempt_body url output_path ?fp (script k) ?w1))"
    using raised by (rule retry_loop_other)
  finally have "download_file url output_path max_retries script w =
      (Some (url, False, ''Error downloading '' @ ?fn @ '': '' @ e, 0),
       snd (attempt_body url output_path ?fp (script k) ?w1))" .
  moreover have "trace (snd (attempt_body url output_path ?fp (script k) ?w1)) =
      trace w @ backoff_trace url [0..<k] @ [HttpGet url]"
    by (simp add: attempt_body_trace failed_prefix_trace)
  moreover have "\<forall>n filename e'.
      ''Error downloading '' @ ?fn @ '': '' @ e \<noteq>
      ''Failed after '' @ str_int n @ '' attempts: '' @ filename @ '' - '' @ e'"
    by simp
  ultimately show ?thesis by blast
qed

text \<open>A refused connection, then a full disk on the second attempt.\<close>

theorem non_transport_error_is_terminal_witness:
  "\<exists>w'. download_file ''https://data.gharchive.org/2024-01-01-10.json.gz'' ''work/archives'' 3
           (\<lambda>attempt. if attempt < 1 then env_down else env_disk_full) fresh_world =
         (Some (''https://data.gharchive.org/2024-01-01-10.json.gz'', False,
            ''Error downloading 2024-01-01-10.json.gz: No space left on device'', 0), w') \<and>
         trace w' = [HttpGet ''https://data.gharchive.org/2024-01-01-10.json.gz'', Sleep 1,
                     HttpGet ''https://data.gharchive.org/2024-01-01-10.json.gz'']"
proof -
  let ?url = "''https://data.gharchive.org/2024-01-01-10.json.gz''"
  have bt: "backoff_trace ?url [0] = [HttpGet ?url, Sleep 1]"
    by (simp add: backoff_trace_def)
  have tr: "trace fresh_world = []" by (simp add: fresh_world_def)
  from non_transport_error_is_terminal [OF example_missing,
         of 1 3 "\<lambda>attempt. if attempt < 1 then env_down else env_disk_full"
            "''No space left on device''"]
  show ?thesis
    by (simp add: example_outcomes example_target bt tr)
qed

lemma retry_loop_fails_before_response:
  assumes "\<forall>k \<in> set as. fails_before_response (script k)"
  shows "fs (snd (retry_loop url output_path filename filepath m script as w)) = fs w \<and>
         stats (snd (retry_loop url output_path filename filepath m script as w)) = stats w"
  using assms
proof (induction as arbitrary: w)
  case Nil
  show ?case by simp
next
  case (Cons a as)
  then have f: "fails_before_response (script a)" by simp
  note body = attempt_body_fails_before_response(1) [OF f, of url output_path filepath]
    attempt_body_fails_before_response(2) [OF f, of url]
  show ?case
  proof (cases "int a = m - 1")
    case True
    from body(2) obtain e where "try_outcome url (script a) = Some (RequestException e)"
      by (rule transport_errorE)
    then have "retry_loop url output_path filename filepath m script (a # as) w =
        (Some (url, False,
           ''Failed after '' @ str_int m @ '' attempts: '' @ filename @ '' - '' @ e, 0),
         snd (attempt_body url output_path filepath (script a) w))"
      using True by (rule retry_loop_exhausted)
    then show ?thesis by (simp add: body(1))
  next
    case False
    from Cons.prems have rest: "\<forall>k \<in> set as. fails_before_response (script k)" by simp
    have "retry_loop url output_path filename filepath m script (a # as) w =
        retry_loop url output_path filename filepath m script as
          (failed_attempt url output_path filepath script w a)"
      using body(2) False by (rule retry_loop_retry)
    with Cons.IH [OF rest, of "failed_attempt url output_path filepath script w a"]
    show ?thesis by (simp add: failed_attempt_def Let_def body(1))
  qed
qed

text \<open>
  Claim C10, as the code has it. The target file does not exist and every attempt raises
  its transport error before a response has passed the status check: \<open>requests.get\<close>
  raises it, or the response has a 4xx or 5xx status, for which \<open>raise_for_status\<close>
  raises it. Then the filesystem after the call is the filesystem before it: the output
  directory is not created and no file is written. The tracker is unchanged too.
\<close>

theorem failed_requests_leave_filesystem:
  assumes missing: "\<not> path_exists (fs w) (target_path output_path url)"
    and fails: "\<forall>k. int k < max_retries \<longrightarrow> fails_before_response (script k)"
  shows "fs (snd (download_file url output_path max_retries script w)) = fs w \<and>
         stats (snd (download_file url output_path max_retries script w)) = stats w"
proof -
  have "\<forall>k \<in> set [0..<nat max_retries]. fails_before_response (script k)"
    using fails by auto
  then show ?thesis
    unfolding download_file_missing [OF missing] by (rule retry_loop_fails_before_response)
qed

text \<open>Refused, 503, refused: the empty filesystem stays empty.\<close>

theorem failed_requests_leave_filesystem_witness:
  "fs (snd (download_file ''https://data.gharchive.org/2024-01-01-10.json.gz'' ''work/archives'' 3
              (\<lambda>attempt. if attempt = 1 then (env_ok [])\<lparr>status_code := 503\<rparr> else env_down)
              fresh_world)) = empty_fs"
proof -
  have "\<forall>k. int k < 3 \<longrightarrow>
          fails_before_response (if k = 1 then (env_ok [])\<lparr>status_code := 503\<rparr> else env_down)"
  proof -
    have "fails_before_response ((env_ok [])\<lparr>status_code := 503\<rparr>)"
      by (simp add: fails_before_response_def env_ok_def)
    with example_outcomes(5) show ?thesis by simp
  qed
  from failed_requests_leave_filesystem [OF example_missing, of 3
         "\<lambda>attempt. if attempt = 1 then (env_ok [])\<lparr>status_code := 503\<rparr> else env_down"]
       this
  show ?thesis by (simp add: fresh_world_def)
qed

text \<open>
  Claim C10 as stated fails for a response that is not a success and still passes the
  status check. Every attempt gets status 300 (which \<open>raise_for_status\<close> does not
  reject) and then loses the connection while the body is read: each attempt ends in a
  transport error and no response is a 2xx, yet the output directory has been created and
  an empty file opened at the target path.
\<close>

theorem broken_stream_after_unrejected_status:
  "\<not> path_exists (fs fresh_world)
       (target_path ''work/archives'' ''https://data.gharchive.org/2024-01-01-10.json.gz'') \<and>
   \<not> path_exists (fs fresh_world) ''work/archives'' \<and>
   status_code ((env_cut [])\<lparr>status_code := 300, reason := ''Multiple Choices''\<rparr>) = 300 \<and>
   transport_error ''https://data.gharchive.org/2024-01-01-10.json.gz''
     ((env_cut [])\<lparr>status_code := 300, reason := ''Multiple Choices''\<rparr>) \<and>
   fst (download_file ''https://data.gharchive.org/2024-01-01-10.json.gz'' ''work/archives'' 3
          (\<lambda>attempt. (env_cut [])\<lparr>status_code := 300, reason := ''Multiple Choices''\<rparr>)
          fresh_world) =
     Some (''https://data.gharchive.org/2024-01-01-10.json.gz'', False,
           ''Failed after 3 attempts: 2024-01-01-10.json.gz - Connection broken'', 0) \<and>
   path_exists
     (fs (snd (download_file ''https://data.gharchive.org/2024-01-01-10.json.gz'' ''work/archives'' 3
                 (\<lambda>attempt. (env_cut [])\<lparr>status_code := 300, reason := ''Multiple Choices''\<rparr>)
                 fresh_world)))
     ''work/archives'' \<and>
   files
     (fs (snd (download_file ''https://data.gharchive.org/2024-01-01-10.json.gz'' ''work/archives'' 3
                 (\<lambda>attempt. (env_cut [])\<lparr>status_code := 300, reason := ''Multiple Choices''\<rparr>)
                 fresh_world)))
     ''work/archives/2024-01-01-10.json.gz'' = Some []"
  by code_simp

lemma retry_loop_returns:
  assumes "as \<noteq> []" and "int (last as) = m - 1"
  shows "fst (retry_loop url output_path filename filepath m script as w) \<noteq> None"
  using assms
proof (induction as arbitrary: w)
  case Nil
  then show ?case by simp
next
  case (Cons a as)
  obtain r w' where b: "attempt_body url output_path filepath (script a) w = (r, w')"
    by (cases "attempt_body url output_path filepath (script a) w")
  show ?case
  proof (cases r)
    case (Inr n)
    with b show ?thesis by simp
  next
    case (Inl e)
    show ?thesis
    proof (cases e)
      case (OtherException x)
      with Inl b show ?thesis by simp
    next
      case (RequestException x)
      show ?thesis
      proof (cases "int a = m - 1")
        case True
        with RequestException Inl b show ?thesis by simp
      next
        case False
        with Cons.prems have "as \<noteq> []" "int (last as) = m - 1" by (auto split: if_splits)
        from Cons.IH [OF this] False RequestException Inl b show ?thesis by simp
      qed
    qed
  qed
qed

lemma download_file_returns:
  assumes "0 < max_retries"
  shows "fst (download_file url output_path max_retries script w) \<noteq> None"
proof (cases "path_exists (fs w) (target_path output_path url)")
  case True
  then show ?thesis by (simp add: download_file_already_exists)
next
  case False
  from assms have "[0..<nat max_retries] \<noteq> []" "int (last [0..<nat max_retries]) = max_retries - 1"
    by (simp_all add: last_upt)
  then show ?thesis
    unfolding download_file_missing [OF False] by (rule retry_loop_returns)
qed

text \<open>
  Claim C5 asks for exactly one DownloadResult for every maximum retry count. For a
  positive \<open>max_retries\<close> the function always returns one (\<open>download_file_returns\<close>).
  With \<open>max_retries = 0\<close> and a target file that does not exist, the loop body never runs
  and the function falls off its end: no result is produced (Python returns \<open>None\<close>).
\<close>

theorem download_file_no_result_without_retries:
  "\<not> path_exists (fs fresh_world)
       (path_join ''work/archives''
          (basename (url_path ''https://data.gharchive.org/2024-01-01-10.json.gz''))) \<and>
   fst (download_file ''https://data.gharchive.org/2024-01-01-10.json.gz'' ''work/archives'' 0
          (\<lambda>attempt. env_ok [''data'']) fresh_world) = None"
  by (simp add: download_file_def fresh_world_def empty_fs_def path_exists_def)

section \<open>Properties of the orchestrator\<close>

lemma retry_loop_url:
  assumes "fst (retry_loop url output_path filename filepath m script as w) = Some r"
  shows "fst r = url"
  using assms
proof (induction as arbitrary: w)
  case Nil
  then show ?case by simp
next
  case (Cons a as)
  obtain x w' where b: "attempt_body url output_path filepath (script a) w = (x, w')"
    by (cases "attempt_body url output_path filepath (script a) w")
  show ?case
  proof (cases x)
    case (Inr n)
    with b Cons.prems show ?thesis by auto
  next
    case (Inl e)
    show ?thesis
    proof (cases e)
      case (OtherException y)
      with Inl b Cons.prems show ?thesis by auto
    next
      case (RequestException y)
      show ?thesis
      proof (cases "int a = m - 1")
        case True
        with RequestException Inl b Cons.prems show ?thesis by auto
      next
        case False
        with RequestException Inl b Cons.prems Cons.IH show ?thesis by auto
      qed
    qed
  qed
qed

lemma download_file_result_url:
  assumes "0 < max_retries"
  shows "result_url (fst (download_file url output_path max_retries script w)) = url"
proof (cases "path_exists (fs w) (target_path output_path url)")
  case True
  then show ?thesis by (simp add: download_file_already_exists result_url_def)
next
  case False
  from download_file_returns [OF assms, of url output_path script w]
  obtain r where r: "fst (download_file url output_path max_retries script w) = Some r"
    by blast
  then have "fst r = url"
    unfolding download_file_missing [OF False] by (rule retry_loop_url)
  with r show ?thesis by (cases r) (simp add: result_url_def)
qed

lemma remove_nth_mset:
  assumes "i < length xs"
  shows "add_mset (xs ! i) (mset (take i xs @ drop (Suc i) xs)) = mset xs"
proof -
  have "mset xs = mset (take i xs @ xs ! i # drop (Suc i) xs)"
    using id_take_nth_drop [OF assms] by simp
  then show ?thesis by simp
qed

lemma remove_nth_set:
  assumes "i < length xs"
  shows "set xs = insert (xs ! i) (set (take i xs @ drop (Suc i) xs))"
proof -
  have "set xs = set (take i xs @ xs ! i # drop (Suc i) xs)"
    using id_take_nth_drop [OF assms] by simp
  then show ?thesis by simp
qed

lemma remove_nth_length:
  assumes "length xs = Suc k" and "i < length xs"
  shows "length (take i xs @ drop (Suc i) xs) = k"
  using assms by simp

text \<open>One step of the pool: the task chosen, its result, and the rest of the run.\<close>

lemma run_pool_stepE:
  assumes "length pending = Suc k"
  obtains i r w' rs w'' where
    "i < length pending"
    "download_file (pending ! i) output_path 3 (net (pending ! i)) w = (r, w')"
    "run_pool sched k (take i pending @ drop (Suc i) pending) output_path net w' = (rs, w'')"
    "run_pool sched (Suc k) pending output_path net w = (r # rs, w'')"
proof -
  define i where "i = sched k mod length pending"
  obtain r w' where d: "download_file (pending ! i) output_path 3 (net (pending ! i)) w = (r, w')"
    by (cases "download_file (pending ! i) output_path 3 (net (pending ! i)) w")
  obtain rs w'' where
    p: "run_pool sched k (take i pending @ drop (Suc i) pending) output_path net w' = (rs, w'')"
    by (cases "run_pool sched k (take i pending @ drop (Suc i) pending) output_path net w'")
  from assms have ne: "pending \<noteq> []" and i: "i < length pending"
    by (auto simp: i_def)
  have "run_pool sched (Suc k) pending output_path net w = (r # rs, w'')"
    using ne d p by (simp add: Let_def i_def [symmetric])
  with i d p show ?thesis by (rule that)
qed

lemma run_pool_results:
  assumes "length pending = k"
  shows "length (fst (run_pool sched k pending output_path net w)) = k \<and>
         mset (map result_url (fst (run_pool sched k pending output_path net w))) = mset pending \<and>
         None \<notin> set (fst (run_pool sched k pending output_path net w))"
  using assms
proof (induction k arbitrary: pending w)
  case 0
  then show ?case by simp
next
  case (Suc k)
  from Suc.prems obtain i r w' rs w'' where
    i: "i < length pending"
    and d: "download_file (pending ! i) output_path 3 (net (pending ! i)) w = (r, w')"
    and p: "run_pool sched k (take i pending @ drop (Suc i) pending) output_path net w' = (rs, w'')"
    and s: "run_pool sched (Suc k) pending output_path net w = (r # rs, w'')"
    by (rule run_pool_stepE)
  have len: "length (take i pending @ drop (Suc i) pending) = k"
    using Suc.prems i by simp
  from Suc.IH [OF len, of w'] p
  have IH: "length rs = k" "mset (map result_url rs) = mset (take i pending @ drop (Suc i) pending)"
    "None \<notin> set rs"
    by simp_all
  have url: "result_url r = pending ! i"
    using download_file_result_url [of 3 "pending ! i" output_path "net (pending ! i)" w] d
    by simp
  have some: "r \<noteq> None"
    using download_file_returns [of 3 "pending ! i" output_path "net (pending ! i)" w] d
    by simp
  have "mset (map result_url (r # rs)) = mset pending"
    using IH(2) url remove_nth_mset [OF i] by simp
  with IH(1,3) some show ?case
    unfolding s by auto
qed


lemma tally_counts:
  assumes "None \<notin> set rs"
  shows "tally rs n_ok n_failed =
           Inr (n_ok + length (filter result_success rs),
                n_failed + length (filter (\<lambda>r. \<not> result_success r) rs))"
  using assms
proof (induction rs arbitrary: n_ok n_failed)
  case Nil
  show ?case by simp
next
  case (Cons r rs)
  then obtain u b m n where r: "r = Some (u, b, m, n)" by (cases r) auto
  from Cons.prems have "None \<notin> set rs" by simp
  from Cons.IH [OF this] show ?case
    by (simp add: r result_success_def)
qed

lemma tally_no_None:
  assumes "tally rs n_ok n_failed = Inr x"
  shows "None \<notin> set rs"
  using assms
proof (induction rs arbitrary: n_ok n_failed)
  case Nil
  show ?case by simp
next
  case (Cons r rs)
  show ?case
  proof (cases r)
    case None
    with Cons.prems show ?thesis by simp
  next
    case (Some t)
    obtain u b m n where t: "t = (u, b, m, n)" by (cases t)
    from Cons.prems Cons.IH show ?thesis
      by (auto simp: Some t split: if_splits)
  qed
qed

text \<open>The initial state of a run, and the run of the pool over a work list.\<close>

lemma run_downloads_eq:
  fixes urls :: "(string \<times> datetime) list" and max_workers :: int
    and sched output_path net fsys t_start
  assumes "urls \<noteq> []" and "0 < max_workers"
  defines "run \<equiv> run_pool sched (length urls) (map fst urls) output_path net
                    \<lparr>fs = fsys, stats = DownloadStats_init t_start, trace = []\<rparr>"
  shows "run_downloads urls output_path max_workers net sched t_start t_end fsys =
           Inr (Some (\<lparr>successful = length (filter result_success (fst run)),
                        failed = length (filter (\<lambda>r. \<not> result_success r) (fst run)),
                        total = length urls,
                        total_downloaded = get_total_downloaded (stats (snd run)),
                        total_time = t_end - start_time (stats (snd run)),
                        avg_speed = (if t_end - start_time (stats (snd run)) > 0
                                     then get_total_downloaded (stats (snd run)) /
                                          (t_end - start_time (stats (snd run)))
                                     else 0)\<rparr>,
                      fst run, snd run))"
proof -
  have "None \<notin> set (fst run)"
    unfolding run_def using run_pool_results [of "map fst urls" "length urls"] by simp
  then have t: "tally (fst run) 0 0 =
      Inr (length (filter result_success (fst run)),
           length (filter (\<lambda>r. \<not> result_success r) (fst run)))"
    using tally_counts [of "fst run" 0 0] by simp
  obtain rs w where rw: "run = (rs, w)" by (cases run)
  with t have t': "tally rs 0 0 =
      Inr (length (filter result_success rs), length (filter (\<lambda>r. \<not> result_success r) rs))"
    by simp
  show ?thesis
    using assms(1,2) unfolding run_downloads_def run_def [symmetric] rw
    by (simp add: t' Let_def)
qed

text \<open>
  Claim C8. For every non-empty WorkItem sequence and positive worker count, whatever the
  network does and in whatever order the fetchers complete, the orchestrator reaches its
  final statistics, and there \<open>successful + failed = total = len(urls)\<close>. Every fetcher
  returned a result (none is \<open>None\<close>), the URLs of the results are the URLs of the work
  list, each as often as it occurs there, and the two counters are the numbers of results
  with and without success. When the sequence is the one \<open>generate_urls\<close> returns, this
  is the run of \<open>download_archives\<close>.
\<close>

theorem tally_covers_every_item:
  assumes "urls \<noteq> []" and "0 < max_workers"
  shows "\<exists>sm results w.
           run_downloads urls output_path max_workers net sched t_start t_end fsys =
             Inr (Some (sm, results, w)) \<and>
           successful sm + failed sm = total sm \<and>
           total sm = length urls \<and>
           mset (map result_url results) = mset (map fst urls) \<and>
           None \<notin> set results \<and>
           successful sm = length (filter result_success results) \<and>
           failed sm = length (filter (\<lambda>r. \<not> result_success r) results) \<and>
           (generate_urls start_dt end_dt = Inr urls \<longrightarrow>
              download_archives start_dt end_dt output_path max_workers net sched t_start t_end fsys =
                Inr (Some (sm, results, w)))"
proof -
  define run where "run = run_pool sched (length urls) (map fst urls) output_path net
                \<lparr>fs = fsys, stats = DownloadStats_init t_start, trace = []\<rparr>"
  define rs where "rs = fst run"
  define w where "w = snd run"
  define sm where "sm = \<lparr>successful = length (filter result_success rs),
                        failed = length (filter (\<lambda>r. \<not> result_success r) rs),
                        total = length urls,
                        total_downloaded = get_total_downloaded (stats w),
                        total_time = t_end - start_time (stats w),
                        avg_speed = (if t_end - start_time (stats w) > 0
                                     then get_total_downloaded (stats w) /
                                          (t_end - start_time (stats w))
                                     else 0)\<rparr>"
  have eq: "run_downloads urls output_path max_workers net sched t_start t_end fsys =
              Inr (Some (sm, rs, w))"
    unfolding sm_def rs_def w_def run_def by (rule run_downloads_eq [OF assms])
  have res: "length rs = length urls"
    "mset (map result_url rs) = mset (map fst urls)" "None \<notin> set rs"
    using run_pool_results [of "map fst urls" "length urls" sched output_path net]
    unfolding rs_def run_def by simp_all
  have sum: "length (filter result_success rs) + length (filter (\<lambda>r. \<not> result_success r) rs) =
               length urls"
    using sum_length_filter_compl [of result_success rs] res(1) by simp
  show ?thesis
  proof (intro exI conjI impI)
    show "run_downloads urls output_path max_workers net sched t_start t_end fsys =
             Inr (Some (sm, rs, w))" by (rule eq)
    show "successful sm + failed sm = total sm" using sum by (simp add: sm_def)
    show "total sm = length urls" by (simp add: sm_def)
    show "mset (map result_url rs) = mset (map fst urls)" by (rule res(2))
    show "None \<notin> set rs" by (rule res(3))
    show "successful sm = length (filter result_success rs)" by (simp add: sm_def)
    show "failed sm = length (filter (\<lambda>r. \<not> result_success r) rs)" by (simp add: sm_def)
    assume "generate_urls start_dt end_dt = Inr urls"
    then show "download_archives start_dt end_dt output_path max_workers net sched t_start t_end fsys =
                Inr (Some (sm, rs, w))"
      by (simp add: download_archives_def eq)
  qed
qed


lemma example_urls:
  "generate_urls example_start example_end =
     Inr [(''https://data.gharchive.org/2024-01-01-10.json.gz'',
           \<lparr>ordinal = 738886, hour = 10, minute = 0, second = 0, microsecond = 0\<rparr>),
          (''https://data.gharchive.org/2024-01-01-11.json.gz'',
           \<lparr>ordinal = 738886, hour = 11, minute = 0, second = 0, microsecond = 0\<rparr>),
          (''https://data.gharchive.org/2024-01-01-12.json.gz'',
           \<lparr>ordinal = 738886, hour = 12, minute = 0, second = 0, microsecond = 0\<rparr>)]"
  by code_simp

text \<open>Three hours, the server of the second one unreachable: the counts add up to 3.\<close>

theorem tally_covers_every_item_witness:
  "\<exists>sm results w.
     download_archives example_start example_end ''work/archives'' 10
       (\<lambda>url attempt. if url = ''https://data.gharchive.org/2024-01-01-11.json.gz''
                       then env_down else env_ok [''data''])
       (\<lambda>k. 0) 0 10 empty_fs = Inr (Some (sm, results, w)) \<and>
     successful sm + failed sm = total sm \<and> total sm = 3"
proof -
  let ?urls = "[(''https://data.gharchive.org/2024-01-01-10.json.gz'',
           \<lparr>ordinal = 738886, hour = 10, minute = 0, second = 0, microsecond = 0\<rparr>),
          (''https://data.gharchive.org/2024-01-01-11.json.gz'',
           \<lparr>ordinal = 738886, hour = 11, minute = 0, second = 0, microsecond = 0\<rparr>),
          (''https://data.gharchive.org/2024-01-01-12.json.gz'',
           \<lparr>ordinal = 738886, hour = 12, minute = 0, second = 0, microsecond = 0\<rparr>)]"
  let ?net = "\<lambda>url attempt. if url = ''https://data.gharchive.org/2024-01-01-11.json.gz''
                       then env_down else env_ok [''data'']"
  have ne: "?urls \<noteq> []" by simp
  have mw: "(0::int) < 10" by simp
  from tally_covers_every_item [OF ne mw, of "''work/archives''" ?net "\<lambda>k. 0" 0 10 empty_fs
         example_start example_end]
  obtain sm results w where
    a: "successful sm + failed sm = total sm" "total sm = length ?urls"
    and b: "generate_urls example_start example_end = Inr ?urls \<longrightarrow>
            download_archives example_start example_end ''work/archives'' 10 ?net (\<lambda>k. 0) 0 10
              empty_fs = Inr (Some (sm, results, w))"
    by blast
  from b example_urls
  have "download_archives example_start example_end ''work/archives'' 10 ?net (\<lambda>k. 0) 0 10
              empty_fs = Inr (Some (sm, results, w))"
    by (rule mp)
  with a show ?thesis by auto
qed

lemma try_outcome_transport:
  "try_outcome url env = Some (RequestException e) \<Longrightarrow> transport_error url env"
  by (simp add: transport_error_def)

lemma retry_loop_bytes:
  assumes "\<forall>k \<in> set as. try_outcome url (script k) \<noteq> None \<longrightarrow>
             bytes_reported url (script k) = 0"
  shows "bytes_downloaded (stats (snd (retry_loop url output_path filename filepath m script as w))) =
           bytes_downloaded (stats w) +
           result_bytes (fst (retry_loop url output_path filename filepath m script as w))"
  using assms
proof (induction as arbitrary: w)
  case Nil
  show ?case by (simp add: result_bytes_def)
next
  case (Cons a as)
  note bytes = attempt_body_bytes [of url output_path filepath "script a" w]
  show ?case
  proof (cases "try_outcome url (script a)")
    case None
    then have "bytes_reported url (script a) = stream_bytes (chunks (script a))"
      by (simp add: bytes_reported_def try_outcome_None_reaches)
    moreover have "retry_loop url output_path filename filepath m script (a # as) w =
        (Some (url, True, ''Downloaded: '' @ filename, stream_bytes (chunks (script a))),
         snd (attempt_body url output_path filepath (script a) w))"
      using None by (rule retry_loop_success)
    ultimately show ?thesis
      using bytes by (simp add: result_bytes_def)
  next
    case (Some e)
    with Cons.prems have zero: "bytes_reported url (script a) = 0" by simp
    show ?thesis
    proof (cases e)
      case (OtherException x)
      with Some have "try_outcome url (script a) = Some (OtherException x)" by simp
      then have "retry_loop url output_path filename filepath m script (a # as) w =
          (Some (url, False, ''Error downloading '' @ filename @ '': '' @ x, 0),
           snd (attempt_body url output_path filepath (script a) w))"
        by (rule retry_loop_other)
      with bytes zero show ?thesis
        by (simp add: result_bytes_def)
    next
      case (RequestException x)
      with Some have t: "try_outcome url (script a) = Some (RequestException x)" by simp
      show ?thesis
      proof (cases "int a = m - 1")
        case True
        have "retry_loop url output_path filename filepath m script (a # as) w =
            (Some (url, False,
               ''Failed after '' @ str_int m @ '' attempts: '' @ filename @ '' - '' @ x, 0),
             snd (attempt_body url output_path filepath (script a) w))"
          using t True by (rule retry_loop_exhausted)
        with bytes zero show ?thesis by (simp add: result_bytes_def)
      next
        case False
        have step: "retry_loop url output_path filename filepath m script (a # as) w =
            retry_loop url output_path filename filepath m script as
              (failed_attempt url output_path filepath script w a)"
          using try_outcome_transport [OF t] False by (rule retry_loop_retry)
        have "bytes_downloaded (stats (failed_attempt url output_path filepath script w a)) =
                bytes_downloaded (stats w)"
          using bytes zero by (simp add: failed_attempt_def Let_def)
        moreover from Cons.prems
        have "\<forall>k \<in> set as. try_outcome url (script k) \<noteq> None \<longrightarrow>
                bytes_reported url (script k) = 0" by simp
        note Cons.IH [OF this, of "failed_attempt url output_path filepath script w a"]
        ultimately show ?thesis unfolding step by simp
      qed
    qed
  qed
qed

lemma download_file_bytes:
  assumes "\<forall>k<nat max_retries. try_outcome url (script k) \<noteq> None \<longrightarrow>
             bytes_reported url (script k) = 0"
  shows "bytes_downloaded (stats (snd (download_file url output_path max_retries script w))) =
           bytes_downloaded (stats w) +
           result_bytes (fst (download_file url output_path max_retries script w))"
proof (cases "path_exists (fs w) (target_path output_path url)")
  case True
  then show ?thesis by (simp add: download_file_already_exists result_bytes_def)
next
  case False
  from assms have "\<forall>k \<in> set [0..<nat max_retries]. try_outcome url (script k) \<noteq> None \<longrightarrow>
             bytes_reported url (script k) = 0" by simp
  then show ?thesis
    unfolding download_file_missing [OF False] by (rule retry_loop_bytes)
qed

lemma run_pool_bytes:
  assumes "length pending = k"
    and "\<forall>u \<in> set pending. \<forall>j<3. try_outcome u (net u j) \<noteq> None \<longrightarrow>
           bytes_reported u (net u j) = 0"
  shows "bytes_downloaded (stats (snd (run_pool sched k pending output_path net w))) =
           bytes_downloaded (stats w) +
           sum_list (map result_bytes (fst (run_pool sched k pending output_path net w)))"
  using assms
proof (induction k arbitrary: pending w)
  case 0
  then show ?case by simp
next
  case (Suc k)
  from Suc.prems(1) obtain i r w' rs w'' where
    i: "i < length pending"
    and d: "download_file (pending ! i) output_path 3 (net (pending ! i)) w = (r, w')"
    and p: "run_pool sched k (take i pending @ drop (Suc i) pending) output_path net w' = (rs, w'')"
    and s: "run_pool sched (Suc k) pending output_path net w = (r # rs, w'')"
    by (rule run_pool_stepE)
  have len: "length (take i pending @ drop (Suc i) pending) = k"
    using Suc.prems(1) i by simp
  have sub: "set (take i pending @ drop (Suc i) pending) \<subseteq> set pending"
    using remove_nth_set [OF i] by auto
  with Suc.prems(2) have clean: "\<forall>u \<in> set (take i pending @ drop (Suc i) pending).
      \<forall>j<3. try_outcome u (net u j) \<noteq> None \<longrightarrow> bytes_reported u (net u j) = 0"
    by blast
  from Suc.IH [OF len clean, of w'] p
  have IH: "bytes_downloaded (stats w'') = bytes_downloaded (stats w') + sum_list (map result_bytes rs)"
    by simp
  from i Suc.prems(2) have "\<forall>j<nat 3. try_outcome (pending ! i) (net (pending ! i) j) \<noteq> None \<longrightarrow>
      bytes_reported (pending ! i) (net (pending ! i) j) = 0"
    by simp
  from download_file_bytes [OF this, of output_path w] d
  have "bytes_downloaded (stats w') = bytes_downloaded (stats w) + result_bytes r"
    by simp
  with IH show ?case unfolding s by simp
qed

text \<open>
  Claim C9, as the code has it. The tracker counts every chunk written, also those of an
  attempt that fails later, while a result reports the bytes of the successful attempt only
  (0 for a failure). When no attempt that ends in an exception has reported bytes before it
  failed, the cumulative total of the tracker, and so the total in the summary (in MiB),
  is the sum of the bytes the results report. A short-circuit adds 0 to both.
\<close>

theorem total_bytes_match_results:
  assumes "urls \<noteq> []" and "0 < max_workers"
    and clean: "\<forall>u \<in> set (map fst urls). \<forall>k<3.
                  try_outcome u (net u k) \<noteq> None \<longrightarrow> bytes_reported u (net u k) = 0"
  shows "\<exists>sm results w.
           run_downloads urls output_path max_workers net sched t_start t_end fsys =
             Inr (Some (sm, results, w)) \<and>
           bytes_downloaded (stats w) = sum_list (map result_bytes results) \<and>
           total_downloaded sm = real_of_int (sum_list (map result_bytes results)) / (1024 * 1024) \<and>
           (generate_urls start_dt end_dt = Inr urls \<longrightarrow>
              download_archives start_dt end_dt output_path max_workers net sched t_start t_end fsys =
                Inr (Some (sm, results, w)))"
proof -
  define w0 where "w0 = \<lparr>fs = fsys, stats = DownloadStats_init t_start, trace = []\<rparr>"
  define run where "run = run_pool sched (length urls) (map fst urls) output_path net w0"
  define rs where "rs = fst run"
  define w where "w = snd run"
  define sm where "sm = \<lparr>successful = length (filter result_success rs),
                        failed = length (filter (\<lambda>r. \<not> result_success r) rs),
                        total = length urls,
                        total_downloaded = get_total_downloaded (stats w),
                        total_time = t_end - start_time (stats w),
                        avg_speed = (if t_end - start_time (stats w) > 0
                                     then get_total_downloaded (stats w) /
                                          (t_end - start_time (stats w))
                                     else 0)\<rparr>"
  have eq: "run_downloads urls output_path max_workers net sched t_start t_end fsys =
              Inr (Some (sm, rs, w))"
    unfolding sm_def rs_def w_def run_def w0_def by (rule run_downloads_eq [OF assms(1,2)])
  have "bytes_downloaded (stats w) = bytes_downloaded (stats w0) + sum_list (map result_bytes rs)"
    unfolding w_def rs_def run_def
    using clean by (intro run_pool_bytes) simp_all
  then have bytes: "bytes_downloaded (stats w) = sum_list (map result_bytes rs)"
    by (simp add: w0_def DownloadStats_init_def)
  show ?thesis
  proof (intro exI conjI impI)
    show "run_downloads urls output_path max_workers net sched t_start t_end fsys =
             Inr (Some (sm, rs, w))" by (rule eq)
    show "bytes_downloaded (stats w) = sum_list (map result_bytes rs)" by (rule bytes)
    show "total_downloaded sm = real_of_int (sum_list (map result_bytes rs)) / (1024 * 1024)"
      by (simp add: sm_def get_total_downloaded_def bytes)
    assume "generate_urls start_dt end_dt = Inr urls"
    then show "download_archives start_dt end_dt output_path max_workers net sched t_start t_end fsys =
                Inr (Some (sm, rs, w))"
      by (simp add: download_archives_def eq)
  qed
qed

text \<open>
  Claim C9 as stated fails when a connection breaks in the middle of a body: the first
  attempt writes 2 bytes and fails, the second downloads 4 bytes. No file existed, the one
  result reports 4 bytes, and the summary's total is 6 bytes.
\<close>

theorem retried_partial_download_counted_twice:
  "case download_archives example_start example_start ''work/archives'' 10
          (\<lambda>url attempt. if attempt = 0 then env_cut [''ab''] else env_ok [''abcd''])
          (\<lambda>k. 0) 0 1 empty_fs of
     Inr (Some (sm, results, w)) \<Rightarrow>
       failed sm = 0 \<and> total_downloaded sm * (1024 * 1024) = 6 \<and>
       bytes_downloaded (stats w) = 6 \<and> sum_list (map result_bytes results) = 4
   | _ \<Rightarrow> False"
  by code_simp


lemma example_clean:
  "bytes_reported url env_down = 0"
  by (simp add: bytes_reported_def reaches_stream_def env_down_def env_ok_def)

text \<open>Three hours, the server of the second one unreachable: no failed attempt wrote a
  chunk, and the totals agree.\<close>

theorem total_bytes_match_results_witness:
  "\<exists>sm results w.
     download_archives example_start example_end ''work/archives'' 10
       (\<lambda>url attempt. if url = ''https://data.gharchive.org/2024-01-01-11.json.gz''
                       then env_down else env_ok [''data''])
       (\<lambda>k. k) 0 10 empty_fs = Inr (Some (sm, results, w)) \<and>
     bytes_downloaded (stats w) = sum_list (map result_bytes results) \<and>
     total_downloaded sm = real_of_int (sum_list (map result_bytes results)) / (1024 * 1024)"
proof -
  let ?urls = "[(''https://data.gharchive.org/2024-01-01-10.json.gz'',
           \<lparr>ordinal = 738886, hour = 10, minute = 0, second = 0, microsecond = 0\<rparr>),
          (''https://data.gharchive.org/2024-01-01-11.json.gz'',
           \<lparr>ordinal = 738886, hour = 11, minute = 0, second = 0, microsecond = 0\<rparr>),
          (''https://data.gharchive.org/2024-01-01-12.json.gz'',
           \<lparr>ordinal = 738886, hour = 12, minute = 0, second = 0, microsecond = 0\<rparr>)]"
  let ?net = "\<lambda>url attempt. if url = ''https://data.gharchive.org/2024-01-01-11.json.gz''
                       then env_down else env_ok [''data'']"
  have ne: "?urls \<noteq> []" by simp
  have mw: "(0::int) < 10" by simp
  have clean: "\<forall>u \<in> set (map fst ?urls). \<forall>k<3.
                  try_outcome u (?net u k) \<noteq> None \<longrightarrow> bytes_reported u (?net u k) = 0"
    by (simp add: example_outcomes example_clean)
  from total_bytes_match_results [OF ne mw clean, of "''work/archives''" "\<lambda>k. k" 0 10 empty_fs
         example_start example_end]
  obtain sm results w where
    a: "bytes_downloaded (stats w) = sum_list (map result_bytes results)"
       "total_downloaded sm = real_of_int (sum_list (map result_bytes results)) / (1024 * 1024)"
    and b: "generate_urls example_start example_end = Inr ?urls \<longrightarrow>
            download_archives example_start example_end ''work/archives'' 10 ?net (\<lambda>k. k) 0 10
              empty_fs = Inr (Some (sm, results, w))"
    by blast
  from b example_urls
  have "download_archives example_start example_end ''work/archives'' 10 ?net (\<lambda>k. k) 0 10
              empty_fs = Inr (Some (sm, results, w))"
    by (rule mp)
  with a show ?thesis by blast
qed

lemma attempt_body_Inr_outcome:
  "try_outcome url env \<noteq> None \<Longrightarrow>
   \<exists>e. fst (attempt_body url output_path filepath env w) = Inl e"
  by (auto simp: attempt_body_outcome)

lemma retry_loop_exists:
  assumes "path_exists (fs w) p"
  shows "path_exists (fs (snd (retry_loop url output_path filename filepath m script as w))) p"
  using assms
proof (induction as arbitrary: w)
  case Nil
  then show ?case by simp
next
  case (Cons a as)
  obtain x w' where b: "attempt_body url output_path filepath (script a) w = (x, w')"
    by (cases "attempt_body url output_path filepath (script a) w")
  from attempt_body_exists [OF Cons.prems, of url output_path filepath "script a"] b
  have w': "path_exists (fs w') p" by simp
  show ?case
  proof (cases x)
    case (Inr n)
    with b w' show ?thesis by simp
  next
    case (Inl e)
    show ?thesis
    proof (cases e)
      case (OtherException y)
      with Inl b w' show ?thesis by simp
    next
      case (RequestException y)
      show ?thesis
      proof (cases "int a = m - 1")
        case True
        with RequestException Inl b w' show ?thesis by simp
      next
        case False
        from w' have "path_exists (fs (w'\<lparr>trace := trace w' @ [Sleep (2 ^ a)]\<rparr>)) p" by simp
        from Cons.IH [OF this] False RequestException Inl b show ?thesis by simp
      qed
    qed
  qed
qed

lemma retry_loop_success_exists:
  assumes "result_success (fst (retry_loop url output_path filename filepath m script as w))"
  shows "path_exists (fs (snd (retry_loop url output_path filename filepath m script as w))) filepath"
  using assms
proof (induction as arbitrary: w)
  case Nil
  then show ?case by (simp add: result_success_def)
next
  case (Cons a as)
  obtain x w' where b: "attempt_body url output_path filepath (script a) w = (x, w')"
    by (cases "attempt_body url output_path filepath (script a) w")
  show ?case
  proof (cases x)
    case (Inr n)
    with b attempt_body_outcome [of url output_path filepath "script a" w]
    have "try_outcome url (script a) = None" by (auto split: option.splits)
    from attempt_body_success_exists [OF this, of output_path filepath w] b Inr
    show ?thesis by simp
  next
    case (Inl e)
    show ?thesis
    proof (cases e)
      case (OtherException y)
      with Inl b Cons.prems show ?thesis by (simp add: result_success_def)
    next
      case (RequestException y)
      show ?thesis
      proof (cases "int a = m - 1")
        case True
        with RequestException Inl b Cons.prems show ?thesis by (simp add: result_success_def)
      next
        case False
        with RequestException Inl b Cons.prems Cons.IH show ?thesis by simp
      qed
    qed
  qed
qed

lemma download_file_exists:
  assumes "path_exists (fs w) p"
  shows "path_exists (fs (snd (download_file url output_path m script w))) p"
proof (cases "path_exists (fs w) (target_path output_path url)")
  case True
  with assms show ?thesis by (simp add: download_file_already_exists)
next
  case False
  show ?thesis
    unfolding download_file_missing [OF False] using assms by (rule retry_loop_exists)
qed

lemma download_file_success_exists:
  assumes "result_success (fst (download_file url output_path m script w))"
  shows "path_exists (fs (snd (download_file url output_path m script w)))
           (target_path output_path url)"
proof (cases "path_exists (fs w) (target_path output_path url)")
  case True
  then show ?thesis by (simp add: download_file_already_exists)
next
  case False
  show ?thesis
    using assms unfolding download_file_missing [OF False] by (rule retry_loop_success_exists)
qed

lemma run_pool_exists:
  assumes "path_exists (fs w) p"
  shows "path_exists (fs (snd (run_pool sched k pending output_path net w))) p"
  using assms
proof (induction k arbitrary: pending w)
  case 0
  then show ?case by simp
next
  case (Suc k)
  show ?case
  proof (cases "pending = []")
    case True
    with Suc.prems show ?thesis by simp
  next
    case False
    define i where "i = sched k mod length pending"
    obtain r w' where d: "download_file (pending ! i) output_path 3 (net (pending ! i)) w = (r, w')"
      by (cases "download_file (pending ! i) output_path 3 (net (pending ! i)) w")
    obtain rs w'' where
      p: "run_pool sched k (take i pending @ drop (Suc i) pending) output_path net w' = (rs, w'')"
      by (cases "run_pool sched k (take i pending @ drop (Suc i) pending) output_path net w'")
    from download_file_exists [OF Suc.prems, of "pending ! i" output_path 3 "net (pending ! i)"] d
    have "path_exists (fs w') p" by simp
    from Suc.IH [OF this, of "take i pending @ drop (Suc i) pending"] p
    have "path_exists (fs w'') p" by simp
    moreover have "run_pool sched (Suc k) pending output_path net w = (r # rs, w'')"
      using False d p by (simp add: Let_def i_def [symmetric])
    ultimately show ?thesis by simp
  qed
qed

lemma run_pool_success_targets:
  assumes "length pending = k"
    and "\<forall>r \<in> set (fst (run_pool sched k pending output_path net w)). result_success r"
  shows "\<forall>u \<in> set pending.
           path_exists (fs (snd (run_pool sched k pending output_path net w)))
             (target_path output_path u)"
  using assms
proof (induction k arbitrary: pending w)
  case 0
  then show ?case by simp
next
  case (Suc k)
  from Suc.prems(1) obtain i r w' rs w'' where
    i: "i < length pending"
    and d: "download_file (pending ! i) output_path 3 (net (pending ! i)) w = (r, w')"
    and p: "run_pool sched k (take i pending @ drop (Suc i) pending) output_path net w' = (rs, w'')"
    and s: "run_pool sched (Suc k) pending output_path net w = (r # rs, w'')"
    by (rule run_pool_stepE)
  have len: "length (take i pending @ drop (Suc i) pending) = k"
    using Suc.prems(1) i by simp
  from Suc.prems(2) have ok: "result_success r" "\<forall>r \<in> set rs. result_success r"
    unfolding s by simp_all
  from Suc.IH [OF len, of w'] ok(2) p
  have rest: "\<forall>u \<in> set (take i pending @ drop (Suc i) pending).
                path_exists (fs w'') (target_path output_path u)"
    by simp
  from download_file_success_exists [of "pending ! i" output_path 3 "net (pending ! i)" w] ok(1) d
  have "path_exists (fs w') (target_path output_path (pending ! i))" by simp
  from run_pool_exists [OF this, of sched k "take i pending @ drop (Suc i) pending" output_path net] p
  have "path_exists (fs w'') (target_path output_path (pending ! i))" by simp
  with rest show ?case
    unfolding s using remove_nth_set [OF i] by auto
qed

lemma run_pool_all_exist:
  assumes "length pending = k"
    and "\<forall>u \<in> set pending. path_exists (fs w) (target_path output_path u)"
  shows "snd (run_pool sched k pending output_path net w) = w \<and>
         (\<forall>r \<in> set (fst (run_pool sched k pending output_path net w)).
            \<exists>u. r = Some (u, True, ''Already exists: '' @ basename (url_path u), 0))"
  using assms
proof (induction k arbitrary: pending)
  case 0
  then show ?case by simp
next
  case (Suc k)
  from Suc.prems(1) obtain i r w' rs w'' where
    i: "i < length pending"
    and d: "download_file (pending ! i) output_path 3 (net (pending ! i)) w = (r, w')"
    and p: "run_pool sched k (take i pending @ drop (Suc i) pending) output_path net w' = (rs, w'')"
    and s: "run_pool sched (Suc k) pending output_path net w = (r # rs, w'')"
    by (rule run_pool_stepE)
  have len: "length (take i pending @ drop (Suc i) pending) = k"
    using Suc.prems(1) i by simp
  from i Suc.prems(2) have "path_exists (fs w) (target_path output_path (pending ! i))"
    by simp
  from download_file_already_exists [OF this, of 3 "net (pending ! i)"] d
  have r: "r = Some (pending ! i, True, ''Already exists: '' @ basename (url_path (pending ! i)), 0)"
    and w': "w' = w" by simp_all
  have "\<forall>u \<in> set (take i pending @ drop (Suc i) pending).
          path_exists (fs w) (target_path output_path u)"
    using Suc.prems(2) remove_nth_set [OF i] by auto
  from Suc.IH [OF len this] p w'
  have "w'' = w" "\<forall>r \<in> set rs. \<exists>u. r = Some (u, True, ''Already exists: '' @ basename (url_path u), 0)"
    by simp_all
  with r show ?case unfolding s by auto
qed


text \<open>
  Claim C1, as the code has it. If a run of the orchestrator completes and reports no
  failure, then a second run over the same range and output directory, on the filesystem
  the first one left, reports every item as a success: each result is the short-circuit
  \<open>Already exists\<close> with 0 bytes, the failure count is 0, no request is made, the tracker
  receives no bytes and the filesystem is unchanged, whatever the network would do.
\<close>

theorem second_run_skips_everything:
  assumes first: "download_archives start_dt end_dt output_path max_workers1 net1 sched1 t1 t1' fsys =
                    Inr (Some (sm1, rs1, w1))"
    and no_failure: "failed sm1 = 0"
    and workers: "0 < max_workers2"
  shows "\<exists>sm2 rs2 w2.
           download_archives start_dt end_dt output_path max_workers2 net2 sched2 t2 t2' (fs w1) =
             Inr (Some (sm2, rs2, w2)) \<and>
           total sm2 = total sm1 \<and> successful sm2 = total sm2 \<and> failed sm2 = 0 \<and>
           length rs2 = total sm2 \<and>
           (\<forall>r \<in> set rs2. \<exists>u. r = Some (u, True, ''Already exists: '' @ basename (url_path u), 0)) \<and>
           bytes_downloaded (stats w2) = 0 \<and> total_downloaded sm2 = 0 \<and>
           trace w2 = [] \<and> fs w2 = fs w1"
proof -
  from first obtain urls where gen: "generate_urls start_dt end_dt = Inr urls"
    and rd: "run_downloads urls output_path max_workers1 net1 sched1 t1 t1' fsys =
               Inr (Some (sm1, rs1, w1))"
    by (auto simp: download_archives_def split: sum.splits)
  from rd have ne: "urls \<noteq> []" and w1pos: "0 < max_workers1"
    by (auto simp: run_downloads_def split: if_splits)
  define run1 where "run1 = run_pool sched1 (length urls) (map fst urls) output_path net1
                      \<lparr>fs = fsys, stats = DownloadStats_init t1, trace = []\<rparr>"
  define sm1' where "sm1' = \<lparr>successful = length (filter result_success (fst run1)),
                        failed = length (filter (\<lambda>r. \<not> result_success r) (fst run1)),
                        total = length urls,
                        total_downloaded = get_total_downloaded (stats (snd run1)),
                        total_time = t1' - start_time (stats (snd run1)),
                        avg_speed = (if t1' - start_time (stats (snd run1)) > 0
                                     then get_total_downloaded (stats (snd run1)) /
                                          (t1' - start_time (stats (snd run1)))
                                     else 0)\<rparr>"
  have "run_downloads urls output_path max_workers1 net1 sched1 t1 t1' fsys =
          Inr (Some (sm1', fst run1, snd run1))"
    unfolding sm1'_def run1_def by (rule run_downloads_eq [OF ne w1pos])
  with rd have "Inr (Some (sm1, rs1, w1)) =
      (Inr (Some (sm1', fst run1, snd run1)) ::
         py_error + (Summary \<times> DownloadResult option list \<times> world) option)"
    by (simp only:)
  then have sm1: "sm1 = sm1'" and rs1: "rs1 = fst run1" and w1: "w1 = snd run1"
    by auto
  have f1: "failed sm1 = length (filter (\<lambda>r. \<not> result_success r) rs1)"
    and tot1: "total sm1 = length urls"
    by (simp_all add: sm1 sm1'_def rs1)
  from f1 no_failure have "\<forall>r \<in> set rs1. result_success r"
    by (simp add: filter_empty_conv)
  then have targets: "\<forall>u \<in> set (map fst urls). path_exists (fs w1) (target_path output_path u)"
    unfolding rs1 w1 run1_def by (intro run_pool_success_targets) simp_all
  define w0 where "w0 = \<lparr>fs = fs w1, stats = DownloadStats_init t2, trace = []\<rparr>"
  define run2 where "run2 = run_pool sched2 (length urls) (map fst urls) output_path net2 w0"
  define rs2 where "rs2 = fst run2"
  define w2 where "w2 = snd run2"
  define sm2 where "sm2 = \<lparr>successful = length (filter result_success rs2),
                        failed = length (filter (\<lambda>r. \<not> result_success r) rs2),
                        total = length urls,
                        total_downloaded = get_total_downloaded (stats w2),
                        total_time = t2' - start_time (stats w2),
                        avg_speed = (if t2' - start_time (stats w2) > 0
                                     then get_total_downloaded (stats w2) /
                                          (t2' - start_time (stats w2))
                                     else 0)\<rparr>"
  have eq2: "run_downloads urls output_path max_workers2 net2 sched2 t2 t2' (fs w1) =
               Inr (Some (sm2, rs2, w2))"
    unfolding sm2_def rs2_def w2_def run2_def w0_def by (rule run_downloads_eq [OF ne workers])
  have "\<forall>u \<in> set (map fst urls). path_exists (fs w0) (target_path output_path u)"
    using targets by (simp add: w0_def)
  from run_pool_all_exist [OF _ this, of "length urls" sched2 net2]
  have w2: "w2 = w0"
    and skipped: "\<forall>r \<in> set rs2. \<exists>u. r = Some (u, True, ''Already exists: '' @ basename (url_path u), 0)"
    unfolding w2_def rs2_def run2_def by simp_all
  have len2: "length rs2 = length urls"
    unfolding rs2_def run2_def
    using run_pool_results [of "map fst urls" "length urls" sched2 output_path net2 w0] by simp
  from skipped have ok: "\<forall>r \<in> set rs2. result_success r"
    by (auto simp: result_success_def)
  then have fs2: "filter result_success rs2 = rs2" "filter (\<lambda>r. \<not> result_success r) rs2 = []"
    by (simp_all add: filter_empty_conv)
  show ?thesis
  proof (intro exI conjI)
    show "download_archives start_dt end_dt output_path max_workers2 net2 sched2 t2 t2' (fs w1) =
             Inr (Some (sm2, rs2, w2))"
      by (simp add: download_archives_def gen eq2)
    show "total sm2 = total sm1" by (simp add: sm2_def tot1)
    show "successful sm2 = total sm2" by (simp add: sm2_def fs2 len2)
    show "failed sm2 = 0" by (simp add: sm2_def fs2)
    show "length rs2 = total sm2" by (simp add: sm2_def len2)
    show "\<forall>r \<in> set rs2. \<exists>u. r = Some (u, True, ''Already exists: '' @ basename (url_path u), 0)"
      by (rule skipped)
    show "bytes_downloaded (stats w2) = 0" by (simp add: w2 w0_def DownloadStats_init_def)
    show "total_downloaded sm2 = 0"
      by (simp add: sm2_def w2 w0_def DownloadStats_init_def get_total_downloaded_def)
    show "trace w2 = []" by (simp add: w2 w0_def)
    show "fs w2 = fs w1" by (simp add: w2 w0_def)
  qed
qed

text \<open>
  Claim C1 as stated fails when the first run fails: with the server unreachable in both
  runs, the second run reports its single item as a failure.
\<close>

theorem second_run_after_failures:
  "case download_archives example_start example_start ''work/archives'' 10
          (\<lambda>url attempt. env_down) (\<lambda>k. 0) 0 1 empty_fs of
     Inr (Some (sm1, rs1, w1)) \<Rightarrow>
       (case download_archives example_start example_start ''work/archives'' 10
               (\<lambda>url attempt. env_down) (\<lambda>k. 0) 2 3 (fs w1) of
          Inr (Some (sm2, rs2, w2)) \<Rightarrow>
            total sm2 = 1 \<and> successful sm2 = 0 \<and> failed sm2 = 1 \<and>
            map result_success rs2 = [False]
        | _ \<Rightarrow> False)
   | _ \<Rightarrow> False"
  by code_simp


lemma example_first_run:
  "case download_archives example_start example_end ''work/archives'' 10
          (\<lambda>url attempt. env_ok [''data'']) (\<lambda>k. 0) 0 1 empty_fs of
     Inr (Some (sm1, rs1, w1)) \<Rightarrow> failed sm1 = 0
   | _ \<Rightarrow> False"
  by code_simp

text \<open>A first run that downloads the three hours, then a second run with the server
  unreachable: three successes, no request, no bytes.\<close>

theorem second_run_skips_everything_witness:
  "\<exists>sm1 rs1 w1 sm2 rs2 w2.
     download_archives example_start example_end ''work/archives'' 10
       (\<lambda>url attempt. env_ok [''data'']) (\<lambda>k. 0) 0 1 empty_fs = Inr (Some (sm1, rs1, w1)) \<and>
     failed sm1 = 0 \<and>
     download_archives example_start example_end ''work/archives'' 10
       (\<lambda>url attempt. env_down) (\<lambda>k. k) 2 3 (fs w1) = Inr (Some (sm2, rs2, w2)) \<and>
     successful sm2 = total sm2 \<and> failed sm2 = 0 \<and> bytes_downloaded (stats w2) = 0 \<and>
     trace w2 = []"
proof -
  from example_first_run obtain sm1 rs1 w1 where
    first: "download_archives example_start example_end ''work/archives'' 10
              (\<lambda>url attempt. env_ok [''data'']) (\<lambda>k. 0) 0 1 empty_fs = Inr (Some (sm1, rs1, w1))"
    and ok: "failed sm1 = 0"
    by (auto split: sum.splits option.splits)
  have w: "(0::int) < 10" by simp
  from second_run_skips_everything [OF first ok w, of "\<lambda>url attempt. env_down" "\<lambda>k. k" 2 3]
  obtain sm2 rs2 w2 where
    "download_archives example_start example_end ''work/archives'' 10
       (\<lambda>url attempt. env_down) (\<lambda>k. k) 2 3 (fs w1) = Inr (Some (sm2, rs2, w2))"
    "successful sm2 = total sm2" "failed sm2 = 0" "bytes_downloaded (stats w2) = 0" "trace w2 = []"
    by blast
  with first ok show ?thesis by blast
qed

end
